theory Spec2Isabelle
  imports Complex_Main "HOL-Library.AList"
begin

section \<open>lightmcmc: single-site Metropolis-Hastings over traces\<close>

text \<open>
  The source is one Python 2 module (\<^verbatim>\<open>from __future__ import division\<close>: \<open>/\<close> is true
  division, \<open>dict.items()\<close> and \<open>map\<close> return lists). Conventions of the embedding:
  \<^item> probabilities (Python floats) are idealised as \<open>real\<close>; a division by zero raises
    \<open>ZeroDivisionError\<close>, as it does on Python numbers;
  \<^item> the two process-wide random generators (\<open>random\<close>, \<open>np.random\<close>) are one explicit
    state of type \<open>'r\<close>, threaded through every call that draws from them;
  \<^item> an exception is the \<open>Inl\<close> branch of a sum; the state mutated before a raise is
    returned beside it;
  \<^item> a \<open>dict\<close> is an association list with distinct keys, its order standing for the
    (unspecified) iteration order of the dict;
  \<^item> the callbacks \<open>model\<close>, \<open>condition\<close>, \<open>query\<close>, the samplers and the scorers are
    parameters, taken to return;
  \<^item> the field \<open>value\<close> of a Draw is \<open>val\<close> and \<open>Choice.set\<close> is \<open>set_fixed\<close>, the
    source's names being taken in Isabelle.
\<close>

subsection \<open>Errors\<close>

datatype error = ZeroProbabilityException | IndexError | ZeroDivisionError

subsection \<open>Utils\<close>

text \<open>\<^verbatim>\<open>functools.reduce(operator.mul, seq, 1)\<close>: a left fold from 1.\<close>

definition product :: "real list \<Rightarrow> real" where
  "product seq = foldl (*) 1 seq"

text \<open>\<^verbatim>\<open>flip(weight)\<close>: \<^verbatim>\<open>np.random.uniform(0, 1) <= weight\<close>; the uniform draw is a parameter.\<close>

definition flip :: "('r \<Rightarrow> real \<times> 'r) \<Rightarrow> real \<Rightarrow> 'r \<Rightarrow> bool \<times> 'r" where
  "flip uniform weight g = (case uniform g of (y, g') \<Rightarrow> (y \<le> weight, g'))"

subsection \<open>Choice and Draw\<close>

record ('v, 'r) Choice =
  sampler :: "'r \<Rightarrow> 'v \<times> 'r"
  scorer :: "'v \<Rightarrow> real"
  description :: string

record ('v, 'r) Draw =
  val :: 'v
  choice :: "('v, 'r) Choice"
  tick_touched :: int
  tick_created :: int
  fixed :: bool

text \<open>
  \<^verbatim>\<open>Draw.__init__\<close>. The argument \<open>tick_created\<close> defaults to \<open>None\<close>, and the field is
  \<^verbatim>\<open>tick_created or tick_touched\<close>: Python's \<open>or\<close> yields its right operand when the left
  one is falsy, which \<open>None\<close> and the integer 0 both are.
\<close>

definition py_or :: "int option \<Rightarrow> int \<Rightarrow> int" where
  "py_or x y = (case x of None \<Rightarrow> y | Some a \<Rightarrow> if a = 0 then y else a)"

definition Draw_init ::
  "'v \<Rightarrow> ('v, 'r) Choice \<Rightarrow> int \<Rightarrow> int option \<Rightarrow> bool \<Rightarrow> ('v, 'r) Draw" where
  "Draw_init v c tt tc f =
     \<lparr>val = v, choice = c, tick_touched = tt, tick_created = py_or tc tt, fixed = f\<rparr>"

text \<open>\<^verbatim>\<open>Draw.resample\<close>: \<^verbatim>\<open>self.value = self.choice.sampler()\<close>.\<close>

definition resample :: "('v, 'r) Draw \<Rightarrow> 'r \<Rightarrow> ('v, 'r) Draw \<times> 'r" where
  "resample d g = (case sampler (choice d) g of (v, g') \<Rightarrow> (d\<lparr>val := v\<rparr>, g'))"

text \<open>\<^verbatim>\<open>Draw.score\<close>: \<^verbatim>\<open>self.choice.scorer(self.value)\<close>, computed on demand.\<close>

definition score :: "('v, 'r) Draw \<Rightarrow> real" where
  "score d = scorer (choice d) (val d)"

text \<open>\<^verbatim>\<open>Draw.copy\<close>: a new Draw built by the constructor from the five fields.\<close>

definition Draw_copy :: "('v, 'r) Draw \<Rightarrow> ('v, 'r) Draw" where
  "Draw_copy d =
     Draw_init (val d) (choice d) (tick_touched d) (Some (tick_created d)) (fixed d)"

subsection \<open>World\<close>

type_synonym ('n, 'v, 'r) World = "('n \<times> ('v, 'r) Draw) list"

text \<open>\<^verbatim>\<open>Choice.sample\<close>. The Draw found under \<open>name\<close> is rebound before its score is tested,
  so the rebinding survives the raise.\<close>

definition sample ::
  "('v, 'r) Choice \<Rightarrow> ('n, 'v, 'r) World \<Rightarrow> 'n \<Rightarrow> int \<Rightarrow> 'r
     \<Rightarrow> (error + 'v) \<times> ('n, 'v, 'r) World \<times> 'r" where
  "sample self world name tick g =
     (case map_of world name of
        Some draw0 \<Rightarrow>
          let draw = draw0\<lparr>choice := self, tick_touched := tick\<rparr>;
              world' = AList.update name draw world
          in if score draw = 0 then (Inl ZeroProbabilityException, world', g)
             else (Inr (val draw), world', g)
      | None \<Rightarrow>
          (case sampler self g of (v, g') \<Rightarrow>
             (Inr v, AList.update name (Draw_init v self tick None False) world, g')))"

text \<open>\<^verbatim>\<open>Choice.set\<close>. Only the branch for a name already present tests the score.\<close>

definition set_fixed ::
  "('v, 'r) Choice \<Rightarrow> ('n, 'v, 'r) World \<Rightarrow> 'n \<Rightarrow> int \<Rightarrow> 'v
     \<Rightarrow> (error + 'v) \<times> ('n, 'v, 'r) World" where
  "set_fixed self world name tick fixed_val =
     (case map_of world name of
        Some draw0 \<Rightarrow>
          let draw = draw0\<lparr>val := fixed_val, choice := self, tick_touched := tick,
                           fixed := True\<rparr>;
              world' = AList.update name draw world
          in if score draw = 0 then (Inl ZeroProbabilityException, world')
             else (Inr fixed_val, world')
      | None \<Rightarrow>
          (Inr fixed_val, AList.update name (Draw_init fixed_val self tick None True) world))"

text \<open>\<^verbatim>\<open>World.score\<close>.\<close>

definition World_score :: "('n, 'v, 'r) World \<Rightarrow> real" where
  "World_score w = product (map (\<lambda>(n, d). score d) w)"

text \<open>\<^verbatim>\<open>World.copy\<close>: a new dict filled, item by item, with copies of the Draws.\<close>

definition World_copy :: "('n, 'v, 'r) World \<Rightarrow> ('n, 'v, 'r) World" where
  "World_copy w = foldl (\<lambda>new_world (i, d). AList.update i (Draw_copy d) new_world) [] w"

text \<open>
  \<^verbatim>\<open>World.clean\<close>. The loop runs over \<open>self.items()\<close>, a list made before the first
  iteration, while \<open>self.pop(name)\<close> removes entries from the dict itself.
\<close>

fun clean_loop ::
  "int \<Rightarrow> ('n, 'v, 'r) World \<Rightarrow> ('n, 'v, 'r) World \<times> real \<times> real
     \<Rightarrow> ('n, 'v, 'r) World \<times> real \<times> real" where
  "clean_loop tick [] st = st"
| "clean_loop tick ((name, draw) # items) (self, inc_fw, inc_bw) =
     (if tick_created draw = tick
        then clean_loop tick items (self, score draw * inc_fw, inc_bw)
      else if tick_touched draw \<noteq> tick
        then clean_loop tick items (AList.delete name self, inc_fw, score draw * inc_bw)
      else clean_loop tick items (self, inc_fw, inc_bw))"

definition clean :: "('n, 'v, 'r) World \<Rightarrow> int \<Rightarrow> (real \<times> real) \<times> ('n, 'v, 'r) World" where
  "clean self tick =
     (case clean_loop tick self (self, 1, 1) of
        (self', inc_fw, inc_bw) \<Rightarrow> ((inc_fw, inc_bw), self'))"

text \<open>
  \<^verbatim>\<open>random.choice(seq)\<close> is \<^verbatim>\<open>seq[int(self.random() * len(seq))]\<close>: the generator is
  advanced first, and an index outside the list (always so for an empty list) raises
  \<open>IndexError\<close>. The generator \<open>random\<close> is a parameter.
\<close>

definition random_choice ::
  "('r \<Rightarrow> real \<times> 'r) \<Rightarrow> 'a list \<Rightarrow> 'r \<Rightarrow> (error + 'a) \<times> 'r" where
  "random_choice random seq g =
     (case random g of (u, g') \<Rightarrow>
        let k = \<lfloor>u * real (length seq)\<rfloor>
        in if 0 \<le> k \<and> k < int (length seq) then (Inr (seq ! nat k), g')
           else (Inl IndexError, g'))"

text \<open>
  \<^verbatim>\<open>World.propose\<close>. The Draw objects of a world are told apart by the name they are
  stored under, so the lists of proposable Draws are lists of items and the resampled Draw
  is written back under its name. The model callback is
  \<open>model world tick\<close>, returning the new world and its output value, or an exception.
\<close>

type_synonym ('n, 'v, 'r, 'a) model =
  "('n, 'v, 'r) World \<Rightarrow> int \<Rightarrow> 'r \<Rightarrow> (error + ('n, 'v, 'r) World \<times> 'a) \<times> 'r"

definition propose ::
  "('r \<Rightarrow> real \<times> 'r) \<Rightarrow> ('n, 'v, 'r, 'a) model \<Rightarrow> ('n, 'v, 'r) World \<Rightarrow> int \<Rightarrow> 'r
     \<Rightarrow> (error + ('n, 'v, 'r) World \<times> 'a \<times> real \<times> real) \<times> 'r" where
  "propose random model self tick g =
     (let proposal = World_copy self;
          proposable_draws_pre = filter (\<lambda>(n, d). \<not> fixed d) proposal
      in (case random_choice random proposable_draws_pre g of
            (Inl e, g1) \<Rightarrow> (Inl e, g1)
          | (Inr (name, draw), g1) \<Rightarrow>
              (let draw_score_pre = score draw
               in (case resample draw g1 of
                     (draw', g2) \<Rightarrow>
                       (let draw_score_post = score draw'
                        in (case model (AList.update name draw' proposal) tick g2 of
                              (Inl e, g3) \<Rightarrow> (Inl e, g3)
                            | (Inr (world', new_value), g3) \<Rightarrow>
                                (case clean world' tick of
                                   ((inc_fw, inc_bw), new_world) \<Rightarrow>
                                     (let proposable_draws_post =
                                            filter (\<lambda>(n, d). \<not> fixed d) new_world
                                      in if length proposable_draws_post = 0
                                         then (Inl ZeroDivisionError, g3)
                                         else
                                           (let bw = (1 / real (length proposable_draws_post))
                                                       * draw_score_pre * inc_bw;
                                                fw = (1 / real (length proposable_draws_pre))
                                                       * draw_score_post * inc_fw
                                            in (Inr (new_world, new_value, bw, fw), g3))))))))))"

subsection \<open>The MCMC driver\<close>

text \<open>\<^verbatim>\<open>initialize\<close>: the loop has no bound; a run that never meets the condition is \<open>None\<close>.\<close>

partial_function (option) initialize ::
  "('n, 'v, 'r, 'a) model \<Rightarrow> ('a \<Rightarrow> bool) \<Rightarrow> 'r
     \<Rightarrow> ((error + ('n, 'v, 'r) World \<times> 'a) \<times> 'r) option" where
  "initialize model condition g =
     (case model [] (- 1) g of
        (Inl e, g') \<Rightarrow> Some (Inl e, g')
      | (Inr (world, v), g') \<Rightarrow>
          if condition v then Some (Inr (world, v), g') else initialize model condition g')"

text \<open>The tick handed to \<open>propose\<close> in round \<open>i\<close>, step \<open>j\<close>: \<^verbatim>\<open>i * j\<close>.\<close>

definition tick_arg :: "nat \<Rightarrow> nat \<Rightarrow> int" where
  "tick_arg i j = int i * int j"

text \<open>
  The body of the inner loop: one Metropolis-Hastings transition on the retained
  \<open>(world, value)\<close>. Only \<open>ZeroProbabilityException\<close> is caught.
\<close>

definition mh_transition ::
  "('r \<Rightarrow> real \<times> 'r) \<Rightarrow> ('r \<Rightarrow> real \<times> 'r) \<Rightarrow> ('n, 'v, 'r, 'a) model \<Rightarrow> ('a \<Rightarrow> bool) \<Rightarrow> int
     \<Rightarrow> ('n, 'v, 'r) World \<times> 'a \<Rightarrow> 'r \<Rightarrow> (error + ('n, 'v, 'r) World \<times> 'a) \<times> 'r" where
  "mh_transition random uniform model condition tick st g =
     (case st of (world, v) \<Rightarrow>
       (case propose random model world tick g of
          (Inl e, g1) \<Rightarrow>
            if e = ZeroProbabilityException then (Inr (world, v), g1) else (Inl e, g1)
        | (Inr (proposal, new_value, bw, fw), g1) \<Rightarrow>
            if condition new_value then
              if World_score world = 0 \<or> fw = 0 then (Inl ZeroDivisionError, g1)
              else
                (let p = (World_score proposal / World_score world) * (bw / fw)
                 in if p \<ge> 1 then (Inr (proposal, new_value), g1)
                    else (case flip uniform p g1 of (b, g2) \<Rightarrow>
                            (Inr (if b then (proposal, new_value) else (world, v)), g2)))
            else (Inr (world, v), g1)))"

text \<open>\<^verbatim>\<open>for j in range(num_steps)\<close>, in round \<open>i\<close>.\<close>

fun inner_loop ::
  "('r \<Rightarrow> real \<times> 'r) \<Rightarrow> ('r \<Rightarrow> real \<times> 'r) \<Rightarrow> ('n, 'v, 'r, 'a) model \<Rightarrow> ('a \<Rightarrow> bool) \<Rightarrow> nat
     \<Rightarrow> nat list \<Rightarrow> ('n, 'v, 'r) World \<times> 'a \<Rightarrow> 'r
     \<Rightarrow> (error + ('n, 'v, 'r) World \<times> 'a) \<times> 'r" where
  "inner_loop random uniform model condition i [] st g = (Inr st, g)"
| "inner_loop random uniform model condition i (j # js) st g =
     (case mh_transition random uniform model condition (tick_arg i j) st g of
        (Inl e, g') \<Rightarrow> (Inl e, g')
      | (Inr st', g') \<Rightarrow> inner_loop random uniform model condition i js st' g')"

text \<open>\<^verbatim>\<open>for i in range(num_samples)\<close>, with the list \<open>samples\<close> built so far.\<close>

fun outer_loop ::
  "('r \<Rightarrow> real \<times> 'r) \<Rightarrow> ('r \<Rightarrow> real \<times> 'r) \<Rightarrow> ('n, 'v, 'r, 'a) model \<Rightarrow> ('a \<Rightarrow> bool)
     \<Rightarrow> ('a \<Rightarrow> 'q) \<Rightarrow> int \<Rightarrow> nat list \<Rightarrow> ('n, 'v, 'r) World \<times> 'a \<Rightarrow> 'q list \<Rightarrow> 'r
     \<Rightarrow> (error + 'q list) \<times> 'r" where
  "outer_loop random uniform model condition query num_steps [] st samples g =
     (Inr samples, g)"
| "outer_loop random uniform model condition query num_steps (i # is) st samples g =
     (case inner_loop random uniform model condition i [0..<nat num_steps] st g of
        (Inl e, g') \<Rightarrow> (Inl e, g')
      | (Inr (world, v), g') \<Rightarrow>
          outer_loop random uniform model condition query num_steps is (world, v)
            (samples @ [query v]) g')"

definition mcmc ::
  "('r \<Rightarrow> real \<times> 'r) \<Rightarrow> ('r \<Rightarrow> real \<times> 'r) \<Rightarrow> ('n, 'v, 'r, 'a) model \<Rightarrow> ('a \<Rightarrow> bool)
     \<Rightarrow> ('a \<Rightarrow> 'q) \<Rightarrow> int \<Rightarrow> int \<Rightarrow> 'r \<Rightarrow> ((error + 'q list) \<times> 'r) option" where
  "mcmc random uniform model condition query num_steps num_samples g =
     (case initialize model condition g of
        None \<Rightarrow> None
      | Some (Inl e, g') \<Rightarrow> Some (Inl e, g')
      | Some (Inr st, g') \<Rightarrow>
          Some (outer_loop random uniform model condition query num_steps
                  [0..<nat num_samples] st [] g'))"

subsection \<open>Rejection\<close>

text \<open>\<^verbatim>\<open>single_rejection\<close>: the model runs on a fresh empty dict until the condition holds.\<close>

partial_function (option) single_rejection ::
  "('n, 'v, 'r, 'a) model \<Rightarrow> ('a \<Rightarrow> bool) \<Rightarrow> ('a \<Rightarrow> 'q) \<Rightarrow> 'r \<Rightarrow> ((error + 'q) \<times> 'r) option" where
  "single_rejection model condition query g =
     (case model [] (- 1) g of
        (Inl e, g') \<Rightarrow> Some (Inl e, g')
      | (Inr (world, v), g') \<Rightarrow>
          if condition v then Some (Inr (query v), g')
          else single_rejection model condition query g')"

text \<open>
  \<^verbatim>\<open>mapp\<close>: the module \<open>parallel\<close> is not part of the repository, so \<open>mapp\<close> is the
  fallback, the built-in \<open>map\<close>, which applies the function to the items in order and
  returns the list of results.
\<close>

fun mapp ::
  "('x \<Rightarrow> 'r \<Rightarrow> ((error + 'q) \<times> 'r) option) \<Rightarrow> 'x list \<Rightarrow> 'r
     \<Rightarrow> ((error + 'q list) \<times> 'r) option" where
  "mapp f [] g = Some (Inr [], g)"
| "mapp f (x # xs) g =
     (case f x g of
        None \<Rightarrow> None
      | Some (Inl e, g') \<Rightarrow> Some (Inl e, g')
      | Some (Inr y, g') \<Rightarrow>
          (case mapp f xs g' of
             None \<Rightarrow> None
           | Some (Inl e, g'') \<Rightarrow> Some (Inl e, g'')
           | Some (Inr ys, g'') \<Rightarrow> Some (Inr (y # ys), g'')))"

text \<open>
  \<^verbatim>\<open>int(num_samples / 100)\<close>: true division, then truncation towards zero. The quotient
  is taken on the reals; the float quotient truncates to the same integer for every
  \<open>num_samples\<close> whose list fits in memory.
\<close>

definition int_truediv :: "int \<Rightarrow> int \<Rightarrow> int" where
  "int_truediv a b =
     (let q = real_of_int a / real_of_int b in if 0 \<le> q then \<lfloor>q\<rfloor> else \<lceil>q\<rceil>)"

text \<open>The first loop of \<open>rejection\<close>: one batch of 100 per iteration, appended to \<open>samples\<close>.\<close>

fun batch_loop ::
  "('n, 'v, 'r, 'a) model \<Rightarrow> ('a \<Rightarrow> bool) \<Rightarrow> ('a \<Rightarrow> 'q) \<Rightarrow> nat list \<Rightarrow> 'q list \<Rightarrow> 'r
     \<Rightarrow> ((error + 'q list) \<times> 'r) option" where
  "batch_loop model condition query [] samples g = Some (Inr samples, g)"
| "batch_loop model condition query (b # bs) samples g =
     (case mapp (\<lambda>_. single_rejection model condition query) [0..<100] g of
        None \<Rightarrow> None
      | Some (Inl e, g') \<Rightarrow> Some (Inl e, g')
      | Some (Inr ys, g') \<Rightarrow> batch_loop model condition query bs (samples @ ys) g')"

definition rejection ::
  "('n, 'v, 'r, 'a) model \<Rightarrow> ('a \<Rightarrow> bool) \<Rightarrow> ('a \<Rightarrow> 'q) \<Rightarrow> int \<Rightarrow> 'r
     \<Rightarrow> ((error + 'q list) \<times> 'r) option" where
  "rejection model condition query num_samples g =
     (case batch_loop model condition query [0..<nat (int_truediv num_samples 100)] [] g of
        None \<Rightarrow> None
      | Some (Inl e, g') \<Rightarrow> Some (Inl e, g')
      | Some (Inr samples, g') \<Rightarrow>
          if num_samples mod 100 \<noteq> 0 then
            (case mapp (\<lambda>_. single_rejection model condition query)
                    [0..<nat (num_samples mod 100)] g' of
               None \<Rightarrow> None
             | Some (Inl e, g'') \<Rightarrow> Some (Inl e, g'')
             | Some (Inr ys, g'') \<Rightarrow> Some (Inr (samples @ ys), g''))
          else Some (Inr samples, g'))"

subsection \<open>The binomial choice of the example\<close>

text \<open>
  \<^verbatim>\<open>score_binomial\<close> (memoised, which a pure function does not show) and
  \<^verbatim>\<open>church_binomial_fixed\<close>. \<open>binom.pmf\<close> and \<open>np.random.binomial\<close> belong to libraries and
  are parameters.
\<close>

definition score_binomial :: "(int \<Rightarrow> int \<Rightarrow> real \<Rightarrow> real) \<Rightarrow> int \<Rightarrow> int \<Rightarrow> real \<Rightarrow> real" where
  "score_binomial pmf n k p = (if k > n then 0 else pmf k n p)"

definition church_binomial_fixed ::
  "(int \<Rightarrow> real \<Rightarrow> 'r \<Rightarrow> int \<times> 'r) \<Rightarrow> (int \<Rightarrow> int \<Rightarrow> real \<Rightarrow> real) \<Rightarrow> ('n, int, 'r) World \<Rightarrow> 'n
     \<Rightarrow> int \<Rightarrow> int \<Rightarrow> real \<Rightarrow> int \<Rightarrow> (error + int) \<times> ('n, int, 'r) World" where
  "church_binomial_fixed sample_binomial pmf world name tick n p fixed_val =
     set_fixed \<lparr>sampler = sample_binomial n p, scorer = (\<lambda>k. score_binomial pmf n k p),
                description = ''binomial/fixed''\<rparr> world name tick fixed_val"

subsection \<open>Objects and references: the operations on an explicit store\<close>

text \<open>
  The definitions above pass worlds by value. Whether two worlds share a Draw object, or
  are one dict object, is visible only with references, so the operations that copy and
  mutate are given a second time on a store: an address is an index, \<open>draw_objs\<close> holds
  the Draw objects, \<open>world_objs\<close> the dict objects, each a list of names with the address
  of the Draw stored under the name. Objects are never freed; a constructor call appends
  one. Choices are never mutated and stay values.
\<close>

record ('n, 'v, 'r) store =
  draw_objs :: "('v, 'r) Draw list"
  world_objs :: "('n \<times> nat) list list"

text \<open>\<^verbatim>\<open>Draw(...)\<close> and \<^verbatim>\<open>World()\<close>: a new object, at the next free address.\<close>

definition new_Draw :: "('v, 'r) Draw \<Rightarrow> ('n, 'v, 'r) store \<Rightarrow> nat \<times> ('n, 'v, 'r) store" where
  "new_Draw d s = (length (draw_objs s), s\<lparr>draw_objs := draw_objs s @ [d]\<rparr>)"

definition new_World :: "('n, 'v, 'r) store \<Rightarrow> nat \<times> ('n, 'v, 'r) store" where
  "new_World s = (length (world_objs s), s\<lparr>world_objs := world_objs s @ [Nil]\<rparr>)"

text \<open>\<^verbatim>\<open>world[name] = draw\<close> and \<^verbatim>\<open>world.pop(name)\<close> on the dict at address \<open>w\<close>.\<close>

definition setitem :: "nat \<Rightarrow> 'n \<Rightarrow> nat \<Rightarrow> ('n, 'v, 'r) store \<Rightarrow> ('n, 'v, 'r) store" where
  "setitem w name a s =
     s\<lparr>world_objs := (world_objs s)[w := AList.update name a (world_objs s ! w)]\<rparr>"

definition pop_name :: "nat \<Rightarrow> 'n \<Rightarrow> ('n, 'v, 'r) store \<Rightarrow> ('n, 'v, 'r) store" where
  "pop_name w name s =
     s\<lparr>world_objs := (world_objs s)[w := AList.delete name (world_objs s ! w)]\<rparr>"

text \<open>\<^verbatim>\<open>Draw.copy\<close> of the Draw at address \<open>a\<close>.\<close>

definition Draw_copy_st :: "nat \<Rightarrow> ('n, 'v, 'r) store \<Rightarrow> nat \<times> ('n, 'v, 'r) store" where
  "Draw_copy_st a s = new_Draw (Draw_copy (draw_objs s ! a)) s"

text \<open>\<^verbatim>\<open>World.copy\<close> of the dict at address \<open>self\<close>: the loop over its items, then the whole.\<close>

fun copy_loop ::
  "nat \<Rightarrow> ('n \<times> nat) list \<Rightarrow> ('n, 'v, 'r) store \<Rightarrow> ('n, 'v, 'r) store" where
  "copy_loop new_world [] s = s"
| "copy_loop new_world ((i, a) # items) s =
     (case Draw_copy_st a s of (a', s') \<Rightarrow> copy_loop new_world items (setitem new_world i a' s'))"

definition World_copy_st :: "nat \<Rightarrow> ('n, 'v, 'r) store \<Rightarrow> nat \<times> ('n, 'v, 'r) store" where
  "World_copy_st self s =
     (case new_World s of
        (new_world, s1) \<Rightarrow> (new_world, copy_loop new_world (world_objs s1 ! self) s1))"

text \<open>\<^verbatim>\<open>Choice.sample\<close> on the dict at address \<open>world\<close>.\<close>

definition sample_st ::
  "('v, 'r) Choice \<Rightarrow> nat \<Rightarrow> 'n \<Rightarrow> int \<Rightarrow> ('n, 'v, 'r) store \<times> 'r
     \<Rightarrow> (error + 'v) \<times> ('n, 'v, 'r) store \<times> 'r" where
  "sample_st self world name tick sg =
     (case sg of (s, g) \<Rightarrow>
       (case map_of (world_objs s ! world) name of
          Some a \<Rightarrow>
            (let s' = s\<lparr>draw_objs :=
                          (draw_objs s)[a := (draw_objs s ! a)\<lparr>choice := self,
                                                               tick_touched := tick\<rparr>]\<rparr>
             in if score (draw_objs s' ! a) = 0 then (Inl ZeroProbabilityException, s', g)
                else (Inr (val (draw_objs s' ! a)), s', g))
        | None \<Rightarrow>
            (case sampler self g of
               (v, g') \<Rightarrow>
                 (case new_Draw (Draw_init v self tick None False) s of
                    (a, s') \<Rightarrow> (Inr v, setitem world name a s', g')))))"

text \<open>\<^verbatim>\<open>Draw.resample\<close> of the Draw at address \<open>a\<close>.\<close>

definition resample_st ::
  "nat \<Rightarrow> ('n, 'v, 'r) store \<times> 'r \<Rightarrow> ('n, 'v, 'r) store \<times> 'r" where
  "resample_st a sg =
     (case sg of (s, g) \<Rightarrow>
       (case sampler (choice (draw_objs s ! a)) g of
          (v, g') \<Rightarrow> (s\<lparr>draw_objs := (draw_objs s)[a := (draw_objs s ! a)\<lparr>val := v\<rparr>]\<rparr>, g')))"

text \<open>\<^verbatim>\<open>World.clean\<close> of the dict at address \<open>self\<close>.\<close>

fun clean_loop_st ::
  "int \<Rightarrow> nat \<Rightarrow> ('n \<times> nat) list \<Rightarrow> ('n, 'v, 'r) store \<times> real \<times> real
     \<Rightarrow> ('n, 'v, 'r) store \<times> real \<times> real" where
  "clean_loop_st tick self [] st = st"
| "clean_loop_st tick self ((name, a) # items) (s, inc_fw, inc_bw) =
     (let draw = draw_objs s ! a
      in if tick_created draw = tick
           then clean_loop_st tick self items (s, score draw * inc_fw, inc_bw)
         else if tick_touched draw \<noteq> tick
           then clean_loop_st tick self items (pop_name self name s, inc_fw, score draw * inc_bw)
         else clean_loop_st tick self items (s, inc_fw, inc_bw))"

definition clean_st ::
  "nat \<Rightarrow> int \<Rightarrow> ('n, 'v, 'r) store \<Rightarrow> (real \<times> real) \<times> ('n, 'v, 'r) store" where
  "clean_st self tick s =
     (case clean_loop_st tick self (world_objs s ! self) (s, 1, 1) of
        (s', inc_fw, inc_bw) \<Rightarrow> ((inc_fw, inc_bw), s'))"

text \<open>
  \<^verbatim>\<open>World.propose\<close> of the dict at address \<open>self\<close>. The model callback takes the address
  of the proposal and returns the address of the world it hands back; the lists of
  proposable Draws are lists of addresses.
\<close>

type_synonym ('n, 'v, 'r, 'a) model_st =
  "nat \<Rightarrow> int \<Rightarrow> ('n, 'v, 'r) store \<times> 'r \<Rightarrow> (error + nat \<times> 'a) \<times> ('n, 'v, 'r) store \<times> 'r"

definition proposable_st :: "('n, 'v, 'r) store \<Rightarrow> nat \<Rightarrow> nat list" where
  "proposable_st s w = filter (\<lambda>a. \<not> fixed (draw_objs s ! a)) (map snd (world_objs s ! w))"

definition propose_st ::
  "('r \<Rightarrow> real \<times> 'r) \<Rightarrow> ('n, 'v, 'r, 'a) model_st \<Rightarrow> nat \<Rightarrow> int \<Rightarrow> ('n, 'v, 'r) store \<times> 'r
     \<Rightarrow> (error + nat \<times> 'a \<times> real \<times> real) \<times> ('n, 'v, 'r) store \<times> 'r" where
  "propose_st random model self tick sg =
     (case sg of (s, g) \<Rightarrow>
       (case World_copy_st self s of
          (proposal, s1) \<Rightarrow>
            (let proposable_draws_pre = proposable_st s1 proposal
             in (case random_choice random proposable_draws_pre g of
                   (Inl e, g1) \<Rightarrow> (Inl e, s1, g1)
                 | (Inr a, g1) \<Rightarrow>
                     (let draw_score_pre = score (draw_objs s1 ! a)
                      in (case resample_st a (s1, g1) of
                            (s2, g2) \<Rightarrow>
                              (let draw_score_post = score (draw_objs s2 ! a)
                               in (case model proposal tick (s2, g2) of
                                     (Inl e, s3, g3) \<Rightarrow> (Inl e, s3, g3)
                                   | (Inr (new_world, new_value), s3, g3) \<Rightarrow>
                                       (case clean_st new_world tick s3 of
                                          ((inc_fw, inc_bw), s4) \<Rightarrow>
                                            (let proposable_draws_post =
                                                   proposable_st s4 new_world
                                             in if length proposable_draws_post = 0
                                                then (Inl ZeroDivisionError, s4, g3)
                                                else
                                                  (let bw = (1 / real (length
                                                               proposable_draws_post))
                                                              * draw_score_pre * inc_bw;
                                                       fw = (1 / real (length
                                                               proposable_draws_pre))
                                                              * draw_score_post * inc_fw
                                                   in (Inr (new_world, new_value, bw, fw),
                                                       s4, g3))))))))))))"

subsection \<open>Vocabulary of the properties\<close>

text \<open>A Draw is created at tick \<open>t\<close>; a Draw is stale at \<open>t\<close> when neither of its ticks is \<open>t\<close>.\<close>

definition created_at :: "int \<Rightarrow> ('v, 'r) Draw \<Rightarrow> bool" where
  "created_at t d = (tick_created d = t)"

definition stale_at :: "int \<Rightarrow> ('v, 'r) Draw \<Rightarrow> bool" where
  "stale_at t d = (tick_created d \<noteq> t \<and> tick_touched d \<noteq> t)"

text \<open>A result of \<open>single_rejection\<close> is the projection of a model output that meets the
  condition.\<close>

definition returns_accepted ::
  "('n, 'v, 'r, 'a) model \<Rightarrow> ('a \<Rightarrow> bool) \<Rightarrow> ('a \<Rightarrow> 'q) \<Rightarrow> (error + 'q) \<times> 'r \<Rightarrow> bool" where
  "returns_accepted model condition query y =
     (case y of
        (Inl e, g') \<Rightarrow> True
      | (Inr r, g') \<Rightarrow>
          \<exists>g0 w v. model [] (- 1) g0 = (Inr (w, v), g') \<and> condition v \<and> r = query v)"

text \<open>
  The chain as the specification describes it. \<open>transitions_done \<dots> i j st g\<close> is the state
  retained after the first \<open>j\<close> transitions of round \<open>i\<close>, begun in \<open>st\<close>;
  \<open>rounds_done \<dots> num_steps a k st g\<close> is the state retained after the \<open>k\<close> rounds
  \<open>a, \<dots>, a + k - 1\<close> of \<open>num_steps\<close> transitions each.
\<close>

fun transitions_done ::
  "('r \<Rightarrow> real \<times> 'r) \<Rightarrow> ('r \<Rightarrow> real \<times> 'r) \<Rightarrow> ('n, 'v, 'r, 'a) model \<Rightarrow> ('a \<Rightarrow> bool) \<Rightarrow> nat
     \<Rightarrow> nat \<Rightarrow> ('n, 'v, 'r) World \<times> 'a \<Rightarrow> 'r
     \<Rightarrow> (error + ('n, 'v, 'r) World \<times> 'a) \<times> 'r" where
  "transitions_done random uniform model condition i 0 st g = (Inr st, g)"
| "transitions_done random uniform model condition i (Suc j) st g =
     (case transitions_done random uniform model condition i j st g of
        (Inl e, g') \<Rightarrow> (Inl e, g')
      | (Inr st', g') \<Rightarrow> mh_transition random uniform model condition (tick_arg i j) st' g')"

fun rounds_done ::
  "('r \<Rightarrow> real \<times> 'r) \<Rightarrow> ('r \<Rightarrow> real \<times> 'r) \<Rightarrow> ('n, 'v, 'r, 'a) model \<Rightarrow> ('a \<Rightarrow> bool) \<Rightarrow> int
     \<Rightarrow> nat \<Rightarrow> nat \<Rightarrow> ('n, 'v, 'r) World \<times> 'a \<Rightarrow> 'r
     \<Rightarrow> (error + ('n, 'v, 'r) World \<times> 'a) \<times> 'r" where
  "rounds_done random uniform model condition num_steps a 0 st g = (Inr st, g)"
| "rounds_done random uniform model condition num_steps a (Suc k) st g =
     (case rounds_done random uniform model condition num_steps a k st g of
        (Inl e, g') \<Rightarrow> (Inl e, g')
      | (Inr st', g') \<Rightarrow>
          transitions_done random uniform model condition (a + k) (nat num_steps) st' g')"

text \<open>
  The world, as a value, that the dict at address \<open>w\<close> of a store stands for; a store in
  which \<open>w\<close> is the address of a dict whose Draws exist.
\<close>

definition world_of :: "('n, 'v, 'r) store \<Rightarrow> nat \<Rightarrow> ('n, 'v, 'r) World" where
  "world_of s w = map (\<lambda>(n, a). (n, draw_objs s ! a)) (world_objs s ! w)"

definition world_at :: "('n, 'v, 'r) store \<Rightarrow> nat \<Rightarrow> bool" where
  "world_at s w =
     (w < length (world_objs s) \<and> list_all (\<lambda>(n, a). a < length (draw_objs s)) (world_objs s ! w))"

text \<open>
  The contract of a model callback towards the rest of the store: whatever it is called
  on, it frees nothing, it writes to no dict but the one it was handed and to no Draw but
  those of that dict (and to objects it creates), and the world it returns is the one it
  was handed or one it created.
\<close>

definition model_frame :: "('n, 'v, 'r, 'a) model_st \<Rightarrow> bool" where
  "model_frame model =
     (\<forall>w tick s g.
        case model w tick (s, g) of
          (res, s', g') \<Rightarrow>
            length (draw_objs s) \<le> length (draw_objs s')
          \<and> length (world_objs s) \<le> length (world_objs s')
          \<and> (\<forall>b < length (world_objs s). b \<noteq> w \<longrightarrow> world_objs s' ! b = world_objs s ! b)
          \<and> (\<forall>a < length (draw_objs s).
                 a \<notin> snd ` set (world_objs s ! w) \<longrightarrow> draw_objs s' ! a = draw_objs s ! a)
          \<and> (case res of
                Inl e \<Rightarrow> True
              | Inr (new_world, v) \<Rightarrow> new_world = w \<or> length (world_objs s) \<le> new_world))"

text \<open>
  \<open>extends s t\<close>: every object of the store \<open>s\<close> is in \<open>t\<close> what it is in \<open>s\<close>.
  \<open>untouched s t w\<close>: the dict at address \<open>w\<close> and the Draws it refers to are in \<open>t\<close>
  what they are in \<open>s\<close>.
\<close>

definition extends :: "('n, 'v, 'r) store \<Rightarrow> ('n, 'v, 'r) store \<Rightarrow> bool" where
  "extends s t =
     (length (draw_objs s) \<le> length (draw_objs t)
      \<and> length (world_objs s) \<le> length (world_objs t)
      \<and> (\<forall>a < length (draw_objs s). draw_objs t ! a = draw_objs s ! a)
      \<and> (\<forall>b < length (world_objs s). world_objs t ! b = world_objs s ! b))"

definition untouched :: "('n, 'v, 'r) store \<Rightarrow> ('n, 'v, 'r) store \<Rightarrow> nat \<Rightarrow> bool" where
  "untouched s t w =
     (world_objs t ! w = world_objs s ! w
      \<and> (\<forall>(n, a) \<in> set (world_objs s ! w). draw_objs t ! a = draw_objs s ! a))"

subsection \<open>Concrete inputs\<close>

text \<open>The generator state is a counter of the draws made. The coin comes up heads at odd
  states and is scored 1/2 for heads and 1/4 for tails; \<open>heads_only\<close> gives tails
  probability 0.\<close>

definition coin :: "(bool, nat) Choice" where
  "coin = \<lparr>sampler = (\<lambda>g. (odd g, Suc g)), scorer = (\<lambda>v. if v then 1 / 2 else 1 / 4),
           description = ''flip''\<rparr>"

definition heads_only :: "(bool, nat) Choice" where
  "heads_only = \<lparr>sampler = (\<lambda>g. (True, Suc g)), scorer = (\<lambda>v. if v then 1 else 0),
                 description = ''heads''\<rparr>"

text \<open>Generators that always return 0 and count the draws.\<close>

definition rand0 :: "nat \<Rightarrow> real \<times> nat" where
  "rand0 g = (0, Suc g)"

text \<open>A model that flips the coin under the name \<open>a\<close> and returns the outcome; a model
  that flips it under \<open>a\<close> and then under \<open>b\<close>.\<close>

definition coin_model :: "(string, bool, nat, bool) model" where
  "coin_model world tick g =
     (case sample coin world ''a'' tick g of
        (Inl e, world', g') \<Rightarrow> (Inl e, g')
      | (Inr a, world', g') \<Rightarrow> (Inr (world', a), g'))"

definition two_coin_model :: "(string, bool, nat, bool \<times> bool) model" where
  "two_coin_model world tick g =
     (case sample coin world ''a'' tick g of
        (Inl e, world1, g1) \<Rightarrow> (Inl e, g1)
      | (Inr a, world1, g1) \<Rightarrow>
          (case sample coin world1 ''b'' tick g1 of
             (Inl e, world2, g2) \<Rightarrow> (Inl e, g2)
           | (Inr b, world2, g2) \<Rightarrow> (Inr (world2, (a, b)), g2)))"

definition mk_draw :: "bool \<Rightarrow> int \<Rightarrow> int \<Rightarrow> bool \<Rightarrow> (bool, nat) Draw" where
  "mk_draw v tt tc f = \<lparr>val = v, choice = coin, tick_touched = tt, tick_created = tc, fixed = f\<rparr>"

definition world3 :: "(string, bool, nat) World" where
  "world3 = [(''a'', mk_draw True 3 3 False), (''b'', mk_draw True 3 1 False),
             (''c'', mk_draw False 2 1 False)]"

text \<open>Worlds for the runs below: one coin showing heads, touched at \<open>t\<close> and created at
  tick -1; one coin created and touched at tick 1; the latter after \<open>two_coin_model\<close> ran on
  it at tick 2 from generator state 2.\<close>

definition heads_world :: "int \<Rightarrow> (string, bool, nat) World" where
  "heads_world t = [(''a'', mk_draw True t (- 1) False)]"

definition world1 :: "(string, bool, nat) World" where
  "world1 = [(''a'', mk_draw True 1 1 False)]"

definition world2 :: "(string, bool, nat) World" where
  "world2 = [(''a'', mk_draw True 2 1 False), (''b'', mk_draw False 2 2 False)]"


text \<open>A store with one world, the coin of \<open>world1\<close>; the model \<open>coin_model\<close> on a store.\<close>

definition store1 :: "(string, bool, nat) store" where
  "store1 = \<lparr>draw_objs = [mk_draw True 1 1 False], world_objs = [(''a'', 0)] # Nil\<rparr>"

definition coin_model_st :: "(string, bool, nat, bool) model_st" where
  "coin_model_st world tick sg =
     (case sample_st coin world ''a'' tick sg of
        (Inl e, s', g') \<Rightarrow> (Inl e, s', g')
      | (Inr a, s', g') \<Rightarrow> (Inr (world, a), s', g'))"

text \<open>\<open>store1\<close> after the copy of its world, and after \<open>propose\<close> at tick 2.\<close>

definition store1_copied :: "(string, bool, nat) store" where
  "store1_copied = \<lparr>draw_objs = [mk_draw True 1 1 False, mk_draw True 1 1 False],
                     world_objs = [(''a'', 0)] # [(''a'', 1)] # Nil\<rparr>"

definition store1_proposed :: "(string, bool, nat) store" where
  "store1_proposed = \<lparr>draw_objs = [mk_draw True 1 1 False, mk_draw True 2 1 False],
                       world_objs = [(''a'', 0)] # [(''a'', 1)] # Nil\<rparr>"

section \<open>Properties\<close>

subsection \<open>Draw.copy\<close>

lemma Draw_copy_nonzero: "tick_created d \<noteq> 0 \<Longrightarrow> Draw_copy d = d"
  by (simp add: Draw_copy_def Draw_init_def py_or_def)

lemma Draw_copy_fields:
  "val (Draw_copy d) = val d" "choice (Draw_copy d) = choice d"
  "tick_touched (Draw_copy d) = tick_touched d" "fixed (Draw_copy d) = fixed d"
  "tick_created (Draw_copy d) = (if tick_created d = 0 then tick_touched d else tick_created d)"
  by (simp_all add: Draw_copy_def Draw_init_def py_or_def)

text \<open>
  C10. The copy of a Draw has the fields of the Draw, also when \<open>tick_created\<close> is 0.
  The code does not do this: a Draw created at tick 0 and touched at tick 1 is copied
  with \<open>tick_created = 1\<close>, because the constructor takes the 0 it is handed for a missing
  argument.
\<close>

theorem Draw_copy_loses_tick_created_zero:
  "Draw_copy (mk_draw True 1 0 False) = mk_draw True 1 1 False
   \<and> tick_created (Draw_copy (mk_draw True 1 0 False)) \<noteq> tick_created (mk_draw True 1 0 False)"
  by (simp add: Draw_copy_def Draw_init_def py_or_def mk_draw_def)

subsection \<open>World.clean\<close>

lemma clean_loop_eq:
  "clean_loop t items (self, fw, bw) =
     (filter (\<lambda>(n, d). n \<notin> fst ` {x \<in> set items. stale_at t (snd x)}) self,
      prod_list (map score (filter (created_at t) (map snd items))) * fw,
      prod_list (map score (filter (stale_at t) (map snd items))) * bw)"
proof (induction items arbitrary: self fw bw)
  case Nil
  then show ?case by simp
next
  case (Cons x items)
  obtain name draw where x: "x = (name, draw)" by (cases x)
  show ?case
    unfolding x
    by (auto simp: Cons.IH created_at_def stale_at_def AList.delete_eq mult_ac image_iff
          intro!: filter_cong)
qed

lemma distinct_keys_filter:
  assumes "distinct (map fst w)"
  shows "filter (\<lambda>(n, d). n \<notin> fst ` {x \<in> set w. P (snd x)}) w = filter (\<lambda>(n, d). \<not> P d) w"
proof (rule filter_cong[OF refl])
  fix x assume xin: "x \<in> set w"
  obtain n d where x: "x = (n, d)" by (cases x)
  have "n \<in> fst ` {x \<in> set w. P (snd x)} \<longleftrightarrow> P d"
  proof
    assume "n \<in> fst ` {x \<in> set w. P (snd x)}"
    then obtain d' where d': "(n, d') \<in> set w" "P d'" by auto
    from assms d'(1) xin have "d' = d" unfolding x by (rule eq_key_imp_eq_value)
    with d'(2) show "P d" by simp
  next
    assume "P d" with xin show "n \<in> fst ` {x \<in> set w. P (snd x)}" unfolding x by force
  qed
  then show "(case x of (n, d) \<Rightarrow> n \<notin> fst ` {x \<in> set w. P (snd x)})
               = (case x of (n, d) \<Rightarrow> \<not> P d)"
    unfolding x by simp
qed

lemma clean_eq:
  assumes "distinct (map fst w)"
  shows "clean w t =
     ((prod_list (map score (filter (created_at t) (map snd w))),
       prod_list (map score (filter (stale_at t) (map snd w)))),
      filter (\<lambda>(n, d). \<not> stale_at t d) w)"
  by (simp add: clean_def clean_loop_eq distinct_keys_filter[OF assms])

text \<open>
  C3. For a world \<open>w\<close> (a dict: its keys are distinct) and a tick \<open>t\<close>, \<open>clean w t\<close>
  leaves in the world exactly the entries that are not stale at \<open>t\<close>, so every retained
  Draw has \<open>tick_touched = t\<close> or \<open>tick_created = t\<close> and every entry with both ticks
  different from \<open>t\<close> is removed; it returns \<open>(inc_fw, inc_bw)\<close>, where \<open>inc_fw\<close> is the
  product of the scores of the Draws created at \<open>t\<close> and \<open>inc_bw\<close> the product of the
  scores of the Draws it removed.
\<close>

theorem clean_retains_touched_or_created:
  assumes "distinct (map fst w)"
  shows "snd (clean w t) = filter (\<lambda>(n, d). \<not> stale_at t d) w
       \<and> (\<forall>(n, d) \<in> set (snd (clean w t)). tick_touched d = t \<or> tick_created d = t)
       \<and> (\<forall>(n, d) \<in> set w. tick_touched d \<noteq> t \<and> tick_created d \<noteq> t
              \<longrightarrow> (n, d) \<notin> set (snd (clean w t)))
       \<and> fst (clean w t) =
           (prod_list (map score (filter (created_at t) (map snd w))),
            prod_list (map score
              (map snd (filter (\<lambda>x. x \<notin> set (snd (clean w t))) w))))"
proof -
  have "filter (\<lambda>x. x \<notin> set (filter (\<lambda>(n, d). \<not> stale_at t d) w)) w
          = filter (\<lambda>(n, d). stale_at t d) w"
    by (rule filter_cong) auto
  then have "map snd (filter (\<lambda>x. x \<notin> set (filter (\<lambda>(n, d). \<not> stale_at t d) w)) w)
          = filter (stale_at t) (map snd w)"
    by (simp add: filter_map comp_def case_prod_unfold)
  then show ?thesis
    by (auto simp: clean_eq[OF assms] stale_at_def)
qed

theorem clean_retains_touched_or_created_witness:
  "distinct (map fst world3)
   \<and> snd (clean world3 3) = filter (\<lambda>(n, d). \<not> stale_at 3 d) world3
   \<and> snd (clean world3 3) = [(''a'', mk_draw True 3 3 False), (''b'', mk_draw True 3 1 False)]
   \<and> fst (clean world3 3) = (1 / 2, 1 / 4)"
proof -
  have d: "distinct (map fst world3)" by (simp add: world3_def)
  have c: "clean world3 3 =
      ((1 / 2, 1 / 4), [(''a'', mk_draw True 3 3 False), (''b'', mk_draw True 3 1 False)])"
    by (simp add: clean_def world3_def mk_draw_def coin_def score_def)
  from clean_retains_touched_or_created[OF d, of 3] d c show ?thesis by simp
qed

subsection \<open>Choice.sample\<close>

lemma update_absent: "map_of al k = None \<Longrightarrow> AList.update k v al = al @ [(k, v)]"
  by (induction al) (auto split: if_splits)

text \<open>
  C5. \<open>sample\<close> on a name already present rebinds the Draw's \<open>choice\<close> and
  \<open>tick_touched\<close> to the call (whether or not it raises), leaves the generator alone,
  raises \<open>ZeroProbabilityException\<close> exactly when the stored value scores 0 under the
  newly bound scorer, and otherwise returns the stored value; on an absent name it draws a
  value from the sampler, inserts a new non-fixed Draw created and touched at the tick, and
  returns the value without raising.
\<close>

theorem sample_revisit_or_fresh:
  "(map_of world name = Some d \<longrightarrow>
      (\<exists>res world'. sample self world name tick g = (res, world', g)
         \<and> map_of world' = (map_of world)(name \<mapsto> d\<lparr>choice := self, tick_touched := tick\<rparr>)
         \<and> (res = Inl ZeroProbabilityException \<longleftrightarrow> scorer self (val d) = 0)
         \<and> (scorer self (val d) \<noteq> 0 \<longrightarrow> res = Inr (val d))))
   \<and> (map_of world name = None \<longrightarrow>
      (\<exists>v g'. sampler self g = (v, g')
         \<and> sample self world name tick g =
             (Inr v, world @ [(name, \<lparr>val = v, choice = self, tick_touched = tick,
                                      tick_created = tick, fixed = False\<rparr>)], g')))"
  by (auto simp: sample_def Let_def score_def update_conv' update_absent Draw_init_def py_or_def
      split: prod.splits)

theorem sample_revisit_or_fresh_witness:
  "map_of world3 ''c'' = Some (mk_draw False 2 1 False)
   \<and> fst (sample coin world3 ''c'' 5 0) = Inr False
   \<and> fst (sample heads_only world3 ''c'' 5 0) = Inl ZeroProbabilityException
   \<and> map_of (fst (snd (sample heads_only world3 ''c'' 5 0))) ''c''
        = Some ((mk_draw False 2 1 False)\<lparr>choice := heads_only, tick_touched := 5\<rparr>)
   \<and> map_of world3 ''z'' = None
   \<and> sample coin world3 ''z'' 5 1 = (Inr True, world3 @ [(''z'', mk_draw True 5 5 False)], 2)"
proof -
  have c: "map_of world3 ''c'' = Some (mk_draw False 2 1 False)"
    and z: "map_of world3 ''z'' = None"
    by (simp_all add: world3_def)
  have s1: "scorer coin (val (mk_draw False 2 1 False)) \<noteq> 0"
    and s2: "scorer heads_only (val (mk_draw False 2 1 False)) = 0"
    and s3: "sampler coin 1 = (True, 2)"
    by (simp_all add: coin_def heads_only_def mk_draw_def)
  from sample_revisit_or_fresh[of world3 "''c''" "mk_draw False 2 1 False" coin 5 0]
    sample_revisit_or_fresh[of world3 "''c''" "mk_draw False 2 1 False" heads_only 5 0]
    sample_revisit_or_fresh[of world3 "''z''" _ coin 5 1]
    c z s1 s2 s3
  show ?thesis by (auto simp: mk_draw_def numeral_2_eq_2)
qed

subsection \<open>Choice.set\<close>

lemma set_fixed_present:
  "map_of world name = Some d \<Longrightarrow>
     set_fixed self world name tick fixed_val =
       (if scorer self fixed_val = 0 then Inl ZeroProbabilityException else Inr fixed_val,
        AList.update name (d\<lparr>val := fixed_val, choice := self, tick_touched := tick, fixed := True\<rparr>) world)"
  by (simp add: set_fixed_def Let_def score_def)

text \<open>
  C4. \<open>set\<close> raises \<open>ZeroProbabilityException\<close> whenever the assigned value scores 0; in
  particular conditioning a fresh binomial Draw with \<open>n = 10\<close>, \<open>p = 0.3\<close> on the value 11
  raises. The code does not: on a world without the name, whatever \<open>binom.pmf\<close> is, the
  call returns 11 and stores a fixed Draw whose score is 0. The score is tested only in the
  branch for a name already present (lemma \<open>set_fixed_present\<close>).
\<close>

theorem set_fixed_fresh_zero_score_no_raise:
  "church_binomial_fixed sample_binomial pmf [] name tick 10 (3 / 10) 11 =
     (Inr 11,
      [(name, \<lparr>val = 11,
               choice = \<lparr>sampler = sample_binomial 10 (3 / 10),
                         scorer = (\<lambda>k. score_binomial pmf 10 k (3 / 10)),
                         description = ''binomial/fixed''\<rparr>,
               tick_touched = tick, tick_created = tick, fixed = True\<rparr>)])
   \<and> score_binomial pmf 10 11 (3 / 10) = 0"
  by (simp add: church_binomial_fixed_def set_fixed_def Draw_init_def py_or_def score_binomial_def)

subsection \<open>Rejection\<close>

lemma sr_step:
  assumes IH: "\<And>m c q g y. f m c q g = Some y \<Longrightarrow> returns_accepted m c q y"
    and eq: "(case m [] (- 1) g of (Inl e, g') \<Rightarrow> Some (Inl e, g')
      | (Inr (world, v), g') \<Rightarrow>
          if c v then Some (Inr (q v), g') else f m c q g') = Some y"
  shows "returns_accepted m c q y"
  proof (cases "m [] (- 1) g")
    case (Pair res g1)
    show ?thesis
    proof (cases res)
      case (Inl e)
      with Pair eq show ?thesis by (auto simp: returns_accepted_def)
    next
      case (Inr wv)
      obtain w v where wv: "wv = (w, v)" by (cases wv)
      show ?thesis
      proof (cases "c v")
        case True
        with Pair Inr wv eq have "y = (Inr (q v), g1)" by auto
        with Pair Inr wv True show ?thesis
          unfolding returns_accepted_def by auto
      next
        case False
        with Pair Inr wv eq have "f m c q g1 = Some y" by auto
        then show ?thesis by (rule IH)
      qed
    qed
  qed

lemma sr_sound_aux:
  assumes "single_rejection model condition query g = Some y"
  shows "returns_accepted model condition query y"
  by (rule single_rejection.raw_induct
    [where P = "\<lambda>m c q g y. returns_accepted m c q y", OF _ assms]) (rule sr_step)

lemma coin_model_empty:
  "coin_model [] t g = (Inr ([(''a'', \<lparr>val = odd g, choice = coin, tick_touched = t,
       tick_created = t, fixed = False\<rparr>)], odd g), Suc g)"
  by (simp add: coin_model_def sample_def coin_def Draw_init_def py_or_def)

lemma coin_rejection_even:
  "even g \<Longrightarrow> single_rejection coin_model (\<lambda>v. v) query g = Some (Inr (query True), Suc (Suc g))"
  apply (subst single_rejection.simps)
  apply (simp add: coin_model_empty)
  apply (subst single_rejection.simps)
  apply (simp add: coin_model_empty)
  done

lemma coin_rejection_odd:
  "odd g \<Longrightarrow> single_rejection coin_model (\<lambda>v. v) query g = Some (Inr (query True), Suc g)"
  apply (subst single_rejection.simps)
  apply (simp add: coin_model_empty)
  done

text \<open>
  C9. Whenever \<open>single_rejection\<close> returns, what it returns is \<open>query v\<close> for an output
  \<open>v\<close> of the model, run on the empty world at tick -1, that meets the condition.
\<close>

theorem single_rejection_meets_condition:
  assumes "single_rejection model condition query g = Some (Inr r, g')"
  shows "\<exists>g0 w v. model [] (- 1) g0 = (Inr (w, v), g') \<and> condition v \<and> r = query v"
  using sr_sound_aux[OF assms] by (simp add: returns_accepted_def)

theorem single_rejection_meets_condition_witness:
  "single_rejection coin_model (\<lambda>v. v) Not 0 = Some (Inr False, 2)
   \<and> (\<exists>g0 w v. coin_model [] (- 1) g0 = (Inr (w, v), 2) \<and> v \<and> False = Not v)"
proof -
  have r: "single_rejection coin_model (\<lambda>v. v) Not 0 = Some (Inr False, 2)"
    using coin_rejection_even[of 0 Not] by (simp add: numeral_2_eq_2)
  from single_rejection_meets_condition[OF r] r show ?thesis by simp
qed

lemma int_truediv_nonneg: "0 \<le> a \<Longrightarrow> int_truediv a 100 = a div 100"
  using floor_divide_of_int_eq[of a 100, where ?'a = real]
  by (simp add: int_truediv_def Let_def)

lemma mapp_append:
  "mapp f (xs @ ys) g =
     (case mapp f xs g of
        None \<Rightarrow> None
      | Some (Inl e, g') \<Rightarrow> Some (Inl e, g')
      | Some (Inr as, g') \<Rightarrow>
          (case mapp f ys g' of
             None \<Rightarrow> None
           | Some (Inl e, g'') \<Rightarrow> Some (Inl e, g'')
           | Some (Inr bs, g'') \<Rightarrow> Some (Inr (as @ bs), g'')))"
  by (induction xs arbitrary: g) (auto split: option.splits sum.splits prod.splits)

lemma mapp_const_length:
  "length xs = length ys \<Longrightarrow> mapp (\<lambda>_. h) xs g = mapp (\<lambda>_. h) ys g"
proof (induction xs arbitrary: ys g)
  case Nil
  then show ?case by simp
next
  case (Cons x xs)
  then obtain y ys' where ys: "ys = y # ys'" and len: "length xs = length ys'"
    by (cases ys) auto
  show ?case unfolding ys
    by (simp add: Cons.IH[OF len] split: option.splits sum.splits prod.splits)
qed

lemma mapp_length:
  "mapp f xs g = Some (Inr ys, g') \<Longrightarrow> length ys = length xs"
  by (induction xs arbitrary: g ys) (auto split: option.splits sum.splits prod.splits)

lemma mapp_returns:
  assumes "\<forall>g. \<exists>y g'. h g = Some (Inr y, g')"
  shows "\<exists>ys g'. mapp (\<lambda>_. h) xs g = Some (Inr ys, g')"
proof (induction xs arbitrary: g)
  case Nil
  then show ?case by simp
next
  case (Cons x xs)
  from assms obtain y g1 where h: "h g = Some (Inr y, g1)" by blast
  from Cons.IH[of g1] obtain ys g2 where "mapp (\<lambda>_. h) xs g1 = Some (Inr ys, g2)" by blast
  with h show ?case by simp
qed

lemma batch_loop_eq:
  "batch_loop model condition query bs samples g =
     (case mapp (\<lambda>_. single_rejection model condition query) [0..<100 * length bs] g of
        None \<Rightarrow> None
      | Some (Inl e, g') \<Rightarrow> Some (Inl e, g')
      | Some (Inr ys, g') \<Rightarrow> Some (Inr (samples @ ys), g'))"
proof (induction bs arbitrary: samples g)
  case Nil
  then show ?case by simp
next
  case (Cons b bs)
  have split: "mapp (\<lambda>_. single_rejection model condition query) [0..<100 * length (b # bs)] g
      = mapp (\<lambda>_. single_rejection model condition query) ([0..<100] @ [0..<100 * length bs]) g"
    by (rule mapp_const_length) simp
  show ?case
    unfolding split mapp_append
    by (simp add: Cons.IH split: option.splits sum.splits prod.splits)
qed

lemma rejection_eq:
  assumes "0 \<le> num_samples"
  shows "rejection model condition query num_samples g =
          mapp (\<lambda>_. single_rejection model condition query) [0..<nat num_samples] g"
proof -
  let ?f = "\<lambda>_::nat. single_rejection model condition query"
  let ?q = "nat (num_samples div 100)" and ?r = "nat (num_samples mod 100)"
  have len: "length [0..<nat num_samples] = length ([0..<100 * length [0..<?q] ] @ [0..<?r])"
  proof -
    have "nat num_samples = 100 * nat (num_samples div 100) + nat (num_samples mod 100)"
    proof -
      have q: "0 \<le> num_samples div 100" and r: "0 \<le> num_samples mod 100"
        using assms by (simp_all add: pos_imp_zdiv_nonneg_iff)
      have "nat num_samples = nat (100 * (num_samples div 100) + num_samples mod 100)"
        by simp
      also have "\<dots> = nat (100 * (num_samples div 100)) + nat (num_samples mod 100)"
        using q r by (intro nat_add_distrib) simp_all
      also have "nat (100 * (num_samples div 100)) = 100 * nat (num_samples div 100)"
        by (simp add: nat_mult_distrib)
      finally show ?thesis .
    qed
    then show ?thesis by simp
  qed
  have eq: "mapp ?f [0..<nat num_samples] g = mapp ?f ([0..<100 * length [0..<?q] ] @ [0..<?r]) g"
    by (rule mapp_const_length[OF len])
  have r0: "num_samples mod 100 = 0 \<Longrightarrow> [0..<?r] = []" by simp
  show ?thesis
    unfolding eq mapp_append rejection_def int_truediv_nonneg[OF assms] batch_loop_eq
    by (auto simp: r0 split: option.splits sum.splits prod.splits)
qed

text \<open>
  C8. For a non-negative \<open>num_samples\<close>, and a model and condition under which every call
  of \<open>single_rejection\<close> returns, \<open>rejection\<close> returns a list of exactly \<open>num_samples\<close>
  samples: the full batches of 100 and the last partial batch together are the results of
  \<open>num_samples\<close> calls of \<open>single_rejection\<close>, one after the other.
\<close>

theorem rejection_returns_num_samples:
  assumes "0 \<le> num_samples"
    and "\<forall>g. \<exists>y g'. single_rejection model condition query g = Some (Inr y, g')"
  shows "\<exists>samples g'.
           rejection model condition query num_samples g = Some (Inr samples, g')
         \<and> int (length samples) = num_samples
         \<and> mapp (\<lambda>_. single_rejection model condition query) [0..<nat num_samples] g
             = Some (Inr samples, g')"
proof -
  from mapp_returns[OF assms(2), of "[0..<nat num_samples]" g]
  obtain ys g' where m: "mapp (\<lambda>_. single_rejection model condition query) [0..<nat num_samples] g
      = Some (Inr ys, g')" by blast
  from mapp_length[OF m] assms(1) have "int (length ys) = num_samples" by simp
  with m rejection_eq[OF assms(1), of model condition query g] show ?thesis by simp
qed

theorem rejection_returns_num_samples_witness:
  "(0::int) \<le> 250
   \<and> (\<exists>samples g'. rejection coin_model (\<lambda>v. v) (\<lambda>v. v) 250 0 = Some (Inr samples, g')
         \<and> int (length samples) = 250)"
proof -
  have "\<exists>y g'. single_rejection coin_model (\<lambda>v. v) (\<lambda>v. v) g = Some (Inr y, g')" for g
    using coin_rejection_even[of g "\<lambda>v. v"] coin_rejection_odd[of g "\<lambda>v. v"] by (cases "even g") auto
  then have h: "\<forall>g. \<exists>y g'. single_rejection coin_model (\<lambda>v. v) (\<lambda>v. v) g = Some (Inr y, g')"
    by blast
  from rejection_returns_num_samples[of 250, OF _ h, of 0] show ?thesis by auto
qed

subsection \<open>The ticks of mcmc\<close>

text \<open>
  C2. Every transition of a run of \<open>mcmc\<close> calls \<open>propose\<close> with a tick of its own, a
  counter incremented once per proposal. The code does not: the tick is the product of the
  round and step indices, so with \<open>num_steps = 2\<close> both transitions of round 0 are made at
  tick 0, and ticks repeat across rounds as well.
\<close>

theorem mcmc_round0_ticks_repeat:
  "inner_loop random uniform model condition 0 [0..<2] st g =
     (case mh_transition random uniform model condition 0 st g of
        (Inl e, g') \<Rightarrow> (Inl e, g')
      | (Inr st', g') \<Rightarrow> mh_transition random uniform model condition 0 st' g')
   \<and> tick_arg 0 0 = tick_arg 0 1 \<and> tick_arg 1 0 = tick_arg 0 1 \<and> tick_arg 1 2 = tick_arg 2 1"
  by (simp add: upt_rec tick_arg_def split: prod.splits sum.splits)

subsection \<open>World.copy and World.propose\<close>

lemma World_copy_foldl:
  "distinct (map fst w) \<Longrightarrow> fst ` set acc \<inter> fst ` set w = {} \<Longrightarrow>
     foldl (\<lambda>new_world (i, d). AList.update i (Draw_copy d) new_world) acc w
       = acc @ map (\<lambda>(i, d). (i, Draw_copy d)) w"
proof (induction w arbitrary: acc)
  case Nil
  then show ?case by simp
next
  case (Cons x w)
  obtain i d where x: "x = (i, d)" by (cases x)
  from Cons.prems x have absent: "map_of acc i = None"
    by (auto simp: map_of_eq_None_iff)
  have up: "AList.update i (Draw_copy d) acc = acc @ [(i, Draw_copy d)]"
    by (rule update_absent[OF absent])
  from Cons.prems x have d: "distinct (map fst w)"
    and disj: "fst ` set (acc @ [(i, Draw_copy d)]) \<inter> fst ` set w = {}"
    by auto
  show ?case unfolding x by (simp add: up Cons.IH[OF d disj])
qed

lemma World_copy_map:
  "distinct (map fst w) \<Longrightarrow> World_copy w = map (\<lambda>(i, d). (i, Draw_copy d)) w"
  unfolding World_copy_def using World_copy_foldl[of w "[]"] by simp

lemma World_copy_proposable:
  assumes "distinct (map fst w)"
  shows "length (filter (\<lambda>(n, d). \<not> fixed d) (World_copy w)) = length (filter (\<lambda>(n, d). \<not> fixed d) w)"
proof -
  have "filter (\<lambda>(n, d). \<not> fixed d) (map (\<lambda>(i, d). (i, Draw_copy d)) w)
      = map (\<lambda>(i, d). (i, Draw_copy d)) (filter (\<lambda>(n, d). \<not> fixed d) w)"
    by (induction w) (auto simp: Draw_copy_fields)
  then show ?thesis by (simp add: World_copy_map[OF assms])
qed

lemma coin_sampler: "sampler coin g = (odd g, Suc g)"
  and coin_scorer: "scorer coin v = (if v then 1 / 2 else 1 / 4)"
  by (simp_all add: coin_def)

lemma two_coin_run:
  "two_coin_model world1 2 2 = (Inr (world2, (True, False)), 3)"
  by (simp add: two_coin_model_def sample_def world1_def world2_def mk_draw_def score_def
        coin_scorer coin_sampler Draw_init_def py_or_def)

lemma world1_pick:
  "random_choice rand0 (filter (\<lambda>(n, d). \<not> fixed d) (World_copy world1)) 0
     = (Inr (''a'', mk_draw True 1 1 False), 1)"
  by (simp add: random_choice_def rand0_def World_copy_def world1_def Draw_copy_nonzero mk_draw_def)

lemma world1_resample: "resample (mk_draw True 1 1 False) 1 = (mk_draw True 1 1 False, 2)"
  by (simp add: resample_def mk_draw_def coin_sampler numeral_2_eq_2)

lemma world1_update: "AList.update ''a'' (mk_draw True 1 1 False) (World_copy world1) = world1"
  by (simp add: World_copy_def world1_def Draw_copy_nonzero mk_draw_def)

lemma world2_clean: "clean world2 2 = ((1 / 4, 1), world2)"
  by (simp add: clean_def world2_def mk_draw_def score_def coin_scorer)

lemma random_choice_in_range:
  assumes "random g = (u, g')" "0 \<le> u" "u < 1" "seq \<noteq> []"
  shows "random_choice random seq g = (Inr (seq ! nat \<lfloor>u * real (length seq)\<rfloor>), g')"
proof -
  have "u * real (length seq) < real (length seq)" using assms by simp
  then have "\<lfloor>u * real (length seq)\<rfloor> < int (length seq)" by linarith
  moreover have "0 \<le> \<lfloor>u * real (length seq)\<rfloor>" using assms by simp
  ultimately show ?thesis by (simp add: random_choice_def assms(1))
qed

text \<open>
  C1, as the code has it. The claim pairs \<open>bw\<close> with the number of proposable Draws
  before resampling and \<open>fw\<close> with the number after re-execution; the code pairs them the
  other way round, which is the reverse and the forward probability of the move. For a
  world \<open>self\<close> (a dict), when a non-fixed Draw is picked from the copy and resampled, the
  model returns and the cleaned new world has a non-fixed Draw, \<open>propose\<close> returns the
  cleaned world and the model's value with
  \<open>bw = (1 / number of non-fixed Draws of the cleaned new world) * score of the picked Draw
  before resampling * inc_bw\<close> and
  \<open>fw = (1 / number of non-fixed Draws of self) * score of the picked Draw after
  resampling * inc_fw\<close>.
\<close>

theorem propose_bw_fw:
  assumes keys: "distinct (map fst self)"
    and pick: "random_choice random (filter (\<lambda>(n, d). \<not> fixed d) (World_copy self)) g
                 = (Inr (name, draw), g1)"
    and res: "resample draw g1 = (draw', g2)"
    and run: "model (AList.update name draw' (World_copy self)) tick g2
                 = (Inr (world', new_value), g3)"
    and cl: "clean world' tick = ((inc_fw, inc_bw), new_world)"
    and post: "filter (\<lambda>(n, d). \<not> fixed d) new_world \<noteq> []"
  shows "propose random model self tick g =
           (Inr (new_world, new_value,
                 (1 / real (length (filter (\<lambda>(n, d). \<not> fixed d) new_world)))
                   * score draw * inc_bw,
                 (1 / real (length (filter (\<lambda>(n, d). \<not> fixed d) self)))
                   * score draw' * inc_fw), g3)"
  using post
  by (simp add: propose_def Let_def pick res run cl World_copy_proposable[OF keys])

theorem propose_bw_fw_witness:
  "distinct (map fst world1)
   \<and> propose rand0 two_coin_model world1 2 0 = (Inr (world2, (True, False), 1 / 4, 1 / 8), 3)"
proof -
  have keys: "distinct (map fst world1)" by (simp add: world1_def)
  have run: "two_coin_model (AList.update ''a'' (mk_draw True 1 1 False) (World_copy world1)) 2 2
      = (Inr (world2, (True, False)), 3)"
    by (simp only: world1_update two_coin_run)
  have post: "filter (\<lambda>(n, d). \<not> fixed d) world2 \<noteq> []"
    by (simp add: world2_def mk_draw_def)
  from propose_bw_fw[of world1 rand0 0 "''a''" "mk_draw True 1 1 False" 1 "mk_draw True 1 1 False"
      2 two_coin_model 2 world2 "(True, False)" 3 "1 / 4" 1 world2,
      OF keys world1_pick world1_resample run world2_clean post] keys
  show ?thesis
    by (simp add: world1_def world2_def mk_draw_def score_def coin_scorer)
qed

text \<open>
  C1, as the claim states it, fails: on a world of one coin, with a model that adds a second
  coin, one Draw is proposable before and two after; the code returns \<open>bw = 1/4\<close> and
  \<open>fw = 1/8\<close>, where the claim's formulas give \<open>1/2\<close> and \<open>1/16\<close>.
\<close>

theorem propose_swaps_counts_counterexample:
  "propose rand0 two_coin_model world1 2 0 = (Inr (world2, (True, False), 1 / 4, 1 / 8), 3)
   \<and> length (filter (\<lambda>(n, d). \<not> fixed d) (World_copy world1)) = 1
   \<and> length (filter (\<lambda>(n, d). \<not> fixed d) world2) = 2
   \<and> score (mk_draw True 1 1 False) = 1 / 2
   \<and> fst (resample (mk_draw True 1 1 False) 1) = mk_draw True 1 1 False
   \<and> clean world2 2 = ((1 / 4, 1), world2)
   \<and> (1 / 4 :: real) \<noteq>
         (1 / real (length (filter (\<lambda>(n, d). \<not> fixed d) (World_copy world1))))
           * score (mk_draw True 1 1 False) * snd (fst (clean world2 2))
   \<and> (1 / 8 :: real) \<noteq>
         (1 / real (length (filter (\<lambda>(n, d). \<not> fixed d) world2)))
           * score (fst (resample (mk_draw True 1 1 False) 1)) * fst (fst (clean world2 2))"
proof -
  have len2: "length (filter (\<lambda>(n, d). \<not> fixed d) world2) = 2"
    and len1: "length (filter (\<lambda>(n, d). \<not> fixed d) (World_copy world1)) = 1"
    and sc: "score (mk_draw True 1 1 False) = 1 / 2"
    by (simp_all add: world1_def world2_def mk_draw_def score_def coin_scorer World_copy_def
          Draw_copy_nonzero)
  have "propose rand0 two_coin_model world1 2 0 =
          (Inr (world2, (True, False), (1 / real (2::nat)) * (1 / 2) * 1,
                (1 / real (1::nat)) * (1 / 2) * (1 / 4)), 3)"
    by (simp only: propose_def Let_def world1_pick world1_resample world1_update two_coin_run
          world2_clean prod.case sum.case len1 len2 sc)
       simp
  moreover have "fst (resample (mk_draw True 1 1 False) 1) = mk_draw True 1 1 False"
    by (simp only: world1_resample fst_conv)
  ultimately show ?thesis
    using len1 len2 sc world2_clean by simp
qed

subsection \<open>mcmc\<close>

lemma inner_loop_snoc:
  "inner_loop random uniform model condition i (js @ [j]) st g =
     (case inner_loop random uniform model condition i js st g of
        (Inl e, g') \<Rightarrow> (Inl e, g')
      | (Inr st', g') \<Rightarrow> mh_transition random uniform model condition (tick_arg i j) st' g')"
  by (induction js arbitrary: st g) (auto split: prod.splits sum.splits)

lemma inner_loop_upt:
  "inner_loop random uniform model condition i [0..<n] st g =
     transitions_done random uniform model condition i n st g"
  by (induction n) (simp_all add: inner_loop_snoc)

lemma rounds_done_shift:
  "rounds_done random uniform model condition num_steps a (Suc k) st g =
     (case transitions_done random uniform model condition a (nat num_steps) st g of
        (Inl e, g') \<Rightarrow> (Inl e, g')
      | (Inr st', g') \<Rightarrow> rounds_done random uniform model condition num_steps (Suc a) k st' g')"
proof (induction k)
  case 0
  then show ?case by (simp split: prod.splits sum.splits)
next
  case (Suc k)
  show ?case
    apply (subst rounds_done.simps(2))
    apply (subst Suc.IH)
    apply (auto split: prod.splits sum.splits)
    done
qed

lemma outer_loop_rounds:
  assumes "\<forall>k \<le> m. \<exists>st' g'. rounds_done random uniform model condition num_steps a k st g = (Inr st', g')"
  shows "outer_loop random uniform model condition query num_steps [a..<a + m] st samples g =
     (Inr (samples @ map (\<lambda>k. query (snd (projr (fst
              (rounds_done random uniform model condition num_steps a (Suc k) st g))))) [0..<m]),
      snd (rounds_done random uniform model condition num_steps a m st g))"
  using assms
proof (induction m arbitrary: a st samples g)
  case 0
  then show ?case by simp
next
  case (Suc m)
  let ?rd = "rounds_done random uniform model condition num_steps"
  from Suc.prems have "\<exists>st' g'. ?rd a (Suc 0) st g = (Inr st', g')"
    by (metis One_nat_def le_add1 plus_1_eq_Suc)
  then obtain w1 v1 g1 where r1: "?rd a (Suc 0) st g = (Inr (w1, v1), g1)" by auto
  then have t1: "transitions_done random uniform model condition a (nat num_steps) st g
      = (Inr (w1, v1), g1)" by simp
  have shift: "?rd a (Suc k) st g = ?rd (Suc a) k (w1, v1) g1" for k
    by (simp only: rounds_done_shift t1) simp
  have pre: "\<forall>k \<le> m. \<exists>st' g'. ?rd (Suc a) k (w1, v1) g1 = (Inr st', g')"
  proof (intro allI impI)
    fix k assume "k \<le> m"
    then have "Suc k \<le> Suc m" by simp
    with Suc.prems have "\<exists>st' g'. ?rd a (Suc k) st g = (Inr st', g')" by blast
    then show "\<exists>st' g'. ?rd (Suc a) k (w1, v1) g1 = (Inr st', g')" by (simp only: shift)
  qed
  have upt: "[a..<a + Suc m] = a # [Suc a..<Suc a + m]"
    using upt_conv_Cons[of a "a + Suc m"] by simp
  have m0: "[0..<Suc m] = 0 # map Suc [0..<m]"
    by (simp only: map_Suc_upt upt_conv_Cons[OF zero_less_Suc])
  have lst: "map (\<lambda>k. query (snd (projr (fst (?rd a (Suc k) st g))))) [0..<Suc m]
      = query v1 # map (\<lambda>k. query (snd (projr (fst (?rd (Suc a) (Suc k) (w1, v1) g1))))) [0..<m]"
    unfolding m0 by (simp add: shift[symmetric] r1 comp_def del: rounds_done.simps)
  show ?case
    unfolding upt lst
    apply (simp only: outer_loop.simps inner_loop_upt t1 prod.case sum.case)
    apply (simp only: Suc.IH[OF pre] shift[of m])
    apply (simp del: rounds_done.simps)
    done
qed

lemma coin_model_heads_world:
  "coin_model [(''a'', mk_draw v t' (- 1) False)] t g = (Inr ([(''a'', mk_draw v t (- 1) False)], v), g)"
  by (simp add: coin_model_def sample_def mk_draw_def score_def coin_scorer)

lemma coin_initialize:
  "initialize coin_model (\<lambda>v. v) 0 = Some (Inr (heads_world (- 1), True), 2)"
  apply (subst initialize.simps)
  apply (simp add: coin_model_def sample_def coin_sampler Draw_init_def py_or_def)
  apply (subst initialize.simps)
  apply (simp add: coin_model_def sample_def coin_sampler Draw_init_def py_or_def heads_world_def mk_draw_def numeral_2_eq_2)
  done

lemma coin_propose:
  "0 \<le> t \<Longrightarrow> propose rand0 coin_model (heads_world t') t g =
     (Inr ([(''a'', mk_draw (even g) t (- 1) False)], even g, 1 / 2, if even g then 1 / 2 else 1 / 4), Suc (Suc g))"
  by (simp add: propose_def World_copy_def heads_world_def Draw_copy_nonzero mk_draw_def
        random_choice_def rand0_def resample_def coin_sampler score_def coin_scorer
        coin_model_heads_world[unfolded mk_draw_def] clean_def)

lemma coin_transition:
  "0 \<le> t \<Longrightarrow> even g \<Longrightarrow> mh_transition rand0 uniform coin_model (\<lambda>v. v) t (heads_world t', True) g =
     (Inr (heads_world t, True), Suc (Suc g))"
  by (simp add: mh_transition_def coin_propose)
     (simp add: heads_world_def World_score_def product_def score_def mk_draw_def coin_scorer)


lemma coin_round:
  "even g \<Longrightarrow> transitions_done rand0 uniform coin_model (\<lambda>v. v) i 2 (heads_world t', True) g =
     (Inr (heads_world (int i), True), g + 4)"
proof -
  assume e: "even g"
  then have e2: "even (Suc (Suc g))" by simp
  have t0: "mh_transition rand0 uniform coin_model (\<lambda>v. v) (tick_arg i 0) (heads_world t', True) g
      = (Inr (heads_world 0, True), Suc (Suc g))"
    using coin_transition[OF _ e, of 0] by (simp add: tick_arg_def)
  have t1: "mh_transition rand0 uniform coin_model (\<lambda>v. v) (tick_arg i (Suc 0))
        (heads_world 0, True) (Suc (Suc g))
      = (Inr (heads_world (int i), True), g + 4)"
    using coin_transition[OF _ e2, of "int i"] by (simp add: tick_arg_def)
  show ?thesis
    by (simp only: numeral_2_eq_2 transitions_done.simps t0 t1 prod.case sum.case)
qed

lemma coin_mcmc_run:
  "mcmc rand0 rand0 coin_model (\<lambda>v. v) Not 2 2 0 = Some (Inr [False, False], 10)"
proof -
  have u: "[0..<nat 2] = [0, Suc 0]" by (simp add: upt_rec numeral_2_eq_2)
  have n2: "nat 2 = 2" by simp
  have r0: "inner_loop rand0 rand0 coin_model (\<lambda>v. v) 0 [0..<2] (heads_world (- 1), True) 2
      = (Inr (heads_world 0, True), 6)"
    by (simp add: inner_loop_upt coin_round)
  have r1: "inner_loop rand0 rand0 coin_model (\<lambda>v. v) (Suc 0) [0..<2] (heads_world 0, True) 6
      = (Inr (heads_world 1, True), 10)"
    by (simp add: inner_loop_upt coin_round)
  have o: "outer_loop rand0 rand0 coin_model (\<lambda>v. v) Not 2 [0, Suc 0] (heads_world (- 1), True) [] 2
      = (Inr [False, False], 10)"
    by (simp only: outer_loop.simps n2 r0 r1 prod.case sum.case append_Nil append_Cons) simp
  show ?thesis
    by (simp only: mcmc_def coin_initialize option.case prod.case sum.case u o)
qed

text \<open>
  C7. When \<open>initialize\<close> returns a state and no round raises, \<open>mcmc\<close> returns a list of
  exactly \<open>num_samples\<close> query outputs, and its \<open>k\<close>-th element is the projection of the
  state retained after round \<open>k\<close>, that is after the last of the \<open>num_steps\<close> transitions
  of that round: the states in between are not recorded.
\<close>

theorem mcmc_returns_one_sample_per_round:
  assumes init: "initialize model condition g = Some (Inr st0, g0)"
    and nonneg: "0 \<le> num_samples"
    and ok: "\<forall>k \<le> nat num_samples. \<exists>st g'.
               rounds_done random uniform model condition num_steps 0 k st0 g0 = (Inr st, g')"
  shows "\<exists>samples g'.
           mcmc random uniform model condition query num_steps num_samples g
             = Some (Inr samples, g')
         \<and> int (length samples) = num_samples
         \<and> (\<forall>k < length samples. \<exists>w v g''.
               rounds_done random uniform model condition num_steps 0 (Suc k) st0 g0
                 = (Inr (w, v), g'')
               \<and> samples ! k = query v)"
proof -
  let ?rd = "rounds_done random uniform model condition num_steps 0"
  let ?samples = "map (\<lambda>k. query (snd (projr (fst (?rd (Suc k) st0 g0))))) [0..<nat num_samples]"
  have run: "mcmc random uniform model condition query num_steps num_samples g
      = Some (Inr ?samples, snd (?rd (nat num_samples) st0 g0))"
    using outer_loop_rounds[OF ok, of query "[]"] by (simp add: mcmc_def init)
  have len: "int (length ?samples) = num_samples" using nonneg by simp
  have each: "\<exists>w v g''. ?rd (Suc k) st0 g0 = (Inr (w, v), g'') \<and> ?samples ! k = query v"
    if "k < length ?samples" for k
  proof -
    from that have k: "k < nat num_samples" by simp
    then have "Suc k \<le> nat num_samples" by simp
    with ok obtain st g' where r: "?rd (Suc k) st0 g0 = (Inr st, g')" by blast
    obtain w v where st: "st = (w, v)" by (cases st)
    have "?samples ! k = query v" using k r st by (simp del: rounds_done.simps)
    with r st show ?thesis by blast
  qed
  from run len each show ?thesis by blast
qed

theorem mcmc_returns_one_sample_per_round_witness:
  "initialize coin_model (\<lambda>v. v) 0 = Some (Inr (heads_world (- 1), True), 2)
   \<and> (0::int) \<le> 2
   \<and> rounds_done rand0 rand0 coin_model (\<lambda>v. v) 2 0 1 (heads_world (- 1), True) 2
        = (Inr (heads_world 0, True), 6)
   \<and> rounds_done rand0 rand0 coin_model (\<lambda>v. v) 2 0 2 (heads_world (- 1), True) 2
        = (Inr (heads_world 1, True), 10)
   \<and> mcmc rand0 rand0 coin_model (\<lambda>v. v) Not 2 2 0 = Some (Inr [False, False], 10)
   \<and> (\<exists>samples g'. mcmc rand0 rand0 coin_model (\<lambda>v. v) Not 2 2 0 = Some (Inr samples, g')
         \<and> int (length samples) = 2)"
proof -
  let ?rd = "rounds_done rand0 rand0 coin_model (\<lambda>v. v) 2 0"
  have r1: "?rd 1 (heads_world (- 1), True) 2 = (Inr (heads_world 0, True), 6)"
    by (simp add: coin_round)
  have r2: "?rd 2 (heads_world (- 1), True) 2 = (Inr (heads_world 1, True), 10)"
  proof -
    have "?rd (Suc (Suc 0)) (heads_world (- 1), True) 2 = (Inr (heads_world 1, True), 10)"
      apply (subst rounds_done.simps(2))
      apply (simp only: r1[unfolded One_nat_def] prod.case sum.case)
      apply (simp add: coin_round)
      done
    then show ?thesis by (simp only: numeral_2_eq_2)
  qed
  have ok: "\<forall>k \<le> nat 2. \<exists>st g'. ?rd k (heads_world (- 1), True) 2 = (Inr st, g')"
  proof (intro allI impI)
    fix k :: nat assume "k \<le> nat 2"
    then consider "k = 0" | "k = 1" | "k = 2" by fastforce
    then show "\<exists>st g'. ?rd k (heads_world (- 1), True) 2 = (Inr st, g')"
    proof cases
      case 1
      then show ?thesis by auto
    next
      case 2
      with r1 show ?thesis by blast
    next
      case 3
      with r2 show ?thesis by blast
    qed
  qed
  from mcmc_returns_one_sample_per_round[OF coin_initialize _ ok, of Not] coin_initialize r1 r2
    coin_mcmc_run
  show ?thesis by auto
qed

subsection \<open>World.copy and World.propose on the store\<close>

lemma extends_refl: "extends s s"
  by (simp add: extends_def)

lemma extends_trans: "extends s t \<Longrightarrow> extends t u \<Longrightarrow> extends s u"
  by (auto simp: extends_def)

lemma extends_untouched: "extends s t \<Longrightarrow> world_at s w \<Longrightarrow> untouched s t w"
  by (auto simp: extends_def untouched_def world_at_def list_all_iff)

lemma untouched_world_of: "untouched s t w \<Longrightarrow> world_of t w = world_of s w"
  by (auto simp: untouched_def world_of_def)

text \<open>Writes at or beyond the lengths of \<open>s\<close> keep \<open>t\<close> an extension of \<open>s\<close>.\<close>

lemma extends_draw_update:
  "extends s t \<Longrightarrow> length (draw_objs s) \<le> a \<Longrightarrow> extends s (t\<lparr>draw_objs := (draw_objs t)[a := d]\<rparr>)"
  by (auto simp: extends_def)

lemma extends_world_update:
  "extends s t \<Longrightarrow> length (world_objs s) \<le> w \<Longrightarrow> extends s (t\<lparr>world_objs := (world_objs t)[w := al]\<rparr>)"
  by (auto simp: extends_def)

lemma extends_draw_append:
  "extends s t \<Longrightarrow> extends s (t\<lparr>draw_objs := draw_objs t @ ds\<rparr>)"
  by (auto simp: extends_def nth_append)

lemma extends_world_append:
  "extends s t \<Longrightarrow> extends s (t\<lparr>world_objs := world_objs t @ ws\<rparr>)"
  by (auto simp: extends_def nth_append)

lemma extends_setitem:
  "extends s t \<Longrightarrow> length (world_objs s) \<le> w \<Longrightarrow> extends s (setitem w n a t)"
  unfolding setitem_def by (rule extends_world_update)

lemma extends_pop_name:
  "extends s t \<Longrightarrow> length (world_objs s) \<le> w \<Longrightarrow> extends s (pop_name w n t)"
  unfolding pop_name_def by (rule extends_world_update)

lemma copy_loop_extends:
  "extends s t \<Longrightarrow> length (world_objs s) \<le> nw \<Longrightarrow> extends s (copy_loop nw items t)"
proof (induction items arbitrary: t)
  case Nil
  then show ?case by simp
next
  case (Cons x items)
  obtain i a where x: "x = (i, a)" by (cases x)
  have "extends s (setitem nw i (length (draw_objs t))
          (t\<lparr>draw_objs := draw_objs t @ [Draw_copy (draw_objs t ! a)]\<rparr>))"
    by (intro extends_setitem extends_draw_append Cons.prems)
  from Cons.IH[OF this Cons.prems(2)] show ?case
    by (simp add: x Draw_copy_st_def new_Draw_def)
qed

text \<open>The addresses stored in the dict under construction are those it had and new ones.\<close>

lemma update_values: "snd ` set (AList.update k v al) \<subseteq> insert v (snd ` set al)"
  by (induction al) auto

lemma delete_values: "snd ` set (AList.delete k al) \<subseteq> snd ` set al"
  by (induction al) auto

lemma copy_loop_values:
  "nw < length (world_objs t) \<Longrightarrow>
     nw < length (world_objs (copy_loop nw items t))
     \<and> length (draw_objs t) \<le> length (draw_objs (copy_loop nw items t))
     \<and> snd ` set (world_objs (copy_loop nw items t) ! nw)
         \<subseteq> snd ` set (world_objs t ! nw)
           \<union> {length (draw_objs t) ..< length (draw_objs (copy_loop nw items t))}"
proof (induction items arbitrary: t)
  case Nil
  then show ?case by simp
next
  case (Cons x items)
  obtain i a where x: "x = (i, a)" by (cases x)
  let ?t' = "setitem nw i (length (draw_objs t))
          (t\<lparr>draw_objs := draw_objs t @ [Draw_copy (draw_objs t ! a)]\<rparr>)"
  have step: "copy_loop nw (x # items) t = copy_loop nw items ?t'"
    by (simp add: x Draw_copy_st_def new_Draw_def)
  have nw': "nw < length (world_objs ?t')" using Cons.prems by (simp add: setitem_def)
  have len': "length (draw_objs ?t') = Suc (length (draw_objs t))" by (simp add: setitem_def)
  have vals': "snd ` set (world_objs ?t' ! nw) \<subseteq> insert (length (draw_objs t)) (snd ` set (world_objs t ! nw))"
    using Cons.prems update_values[of i "length (draw_objs t)" "world_objs t ! nw"]
    by (simp add: setitem_def)
  define u where "u = copy_loop nw items ?t'"
  define n where "n = length (draw_objs t)"
  define V where "V = snd ` set (world_objs t ! nw)"
  from Cons.IH[OF nw'] have ih1: "nw < length (world_objs u)"
    and ih2: "length (draw_objs ?t') \<le> length (draw_objs u)"
    and ih3: "snd ` set (world_objs u ! nw)
        \<subseteq> snd ` set (world_objs ?t' ! nw) \<union> {length (draw_objs ?t') ..< length (draw_objs u)}"
    unfolding u_def by blast+
  from ih2 len' have l: "Suc n \<le> length (draw_objs u)" unfolding n_def by simp
  from ih3 vals' len' have "snd ` set (world_objs u ! nw)
        \<subseteq> insert n V \<union> {Suc n ..< length (draw_objs u)}"
    unfolding n_def V_def by auto
  also have "\<dots> \<subseteq> V \<union> {n ..< length (draw_objs u)}"
    using l by auto
  finally have "snd ` set (world_objs u ! nw) \<subseteq> V \<union> {n ..< length (draw_objs u)}" .
  with ih1 l show ?case
    unfolding step u_def[symmetric] n_def V_def by simp
qed

lemma World_copy_st_fresh:
  assumes "World_copy_st self s = (new_world, t)"
  shows "extends s t" "new_world = length (world_objs s)"
    "new_world < length (world_objs t)"
    "snd ` set (world_objs t ! new_world) \<subseteq> {length (draw_objs s) ..< length (draw_objs t)}"
proof -
  let ?s1 = "s\<lparr>world_objs := world_objs s @ [Nil]\<rparr>"
  from assms have nw: "new_world = length (world_objs s)"
    and t: "t = copy_loop (length (world_objs s)) (world_objs ?s1 ! self) ?s1"
    by (auto simp: World_copy_st_def new_World_def)
  have e1: "extends s ?s1" by (intro extends_world_append extends_refl)
  show "extends s t" unfolding t by (rule copy_loop_extends[OF e1]) simp
  show "new_world = length (world_objs s)" by (rule nw)
  have lt: "length (world_objs s) < length (world_objs ?s1)" by simp
  from copy_loop_values[OF lt, of "world_objs ?s1 ! self"]
  show "new_world < length (world_objs t)"
    and "snd ` set (world_objs t ! new_world) \<subseteq> {length (draw_objs s) ..< length (draw_objs t)}"
    unfolding t nw by auto
qed

lemma clean_loop_st_extends:
  "extends s t \<Longrightarrow> length (world_objs s) \<le> w \<Longrightarrow>
     extends s (fst (clean_loop_st tick w items (t, fw, bw)))"
proof (induction items arbitrary: t fw bw)
  case Nil
  then show ?case by simp
next
  case (Cons x items)
  obtain n a where x: "x = (n, a)" by (cases x)
  from Cons.prems have "extends s (pop_name w n t)" by (intro extends_pop_name)
  with Cons.prems Cons.IH show ?case
    by (simp add: x Let_def)
qed

lemma clean_st_extends:
  "extends s t \<Longrightarrow> length (world_objs s) \<le> w \<Longrightarrow> extends s (snd (clean_st w tick t))"
  using clean_loop_st_extends[of s t w tick "world_objs t ! w" 1 1]
  by (cases "clean_loop_st tick w (world_objs t ! w) (t, 1, 1)") (simp add: clean_st_def)

lemma random_choice_member:
  "random_choice random seq g = (Inr x, g') \<Longrightarrow> x \<in> set seq"
proof -
  assume r: "random_choice random seq g = (Inr x, g')"
  obtain u g1 where u: "random g = (u, g1)" by (cases "random g")
  let ?k = "\<lfloor>u * real (length seq)\<rfloor>"
  from r u have k: "0 \<le> ?k" "?k < int (length seq)" and x: "x = seq ! nat ?k"
    by (auto simp: random_choice_def Let_def split: if_splits)
  from k have "nat ?k < length seq" by linarith
  then show ?thesis unfolding x by (rule nth_mem)
qed

lemma model_frame_extends:
  assumes frame: "model_frame model"
    and ext: "extends s t"
    and w: "length (world_objs s) \<le> w"
    and fresh: "\<forall>a \<in> snd ` set (world_objs t ! w). length (draw_objs s) \<le> a"
    and call: "model w tick (t, g) = (res, t', g')"
  shows "extends s t'"
    and "\<And>new_world v. res = Inr (new_world, v) \<Longrightarrow> length (world_objs s) \<le> new_world"
proof -
  from frame[unfolded model_frame_def, THEN spec[where x = w], THEN spec[where x = tick],
      THEN spec[where x = t], THEN spec[where x = g] ] call
  have l1: "length (draw_objs t) \<le> length (draw_objs t')"
    and l2: "length (world_objs t) \<le> length (world_objs t')"
    and wo: "\<And>b. b < length (world_objs t) \<Longrightarrow> b \<noteq> w \<Longrightarrow> world_objs t' ! b = world_objs t ! b"
    and dr: "\<And>a. a < length (draw_objs t) \<Longrightarrow> a \<notin> snd ` set (world_objs t ! w)
                \<Longrightarrow> draw_objs t' ! a = draw_objs t ! a"
    and ret: "case res of Inl e \<Rightarrow> True
              | Inr (new_world, v) \<Rightarrow> new_world = w \<or> length (world_objs t) \<le> new_world"
    by auto
  from ext have e1: "length (draw_objs s) \<le> length (draw_objs t)"
    and e2: "length (world_objs s) \<le> length (world_objs t)"
    and e3: "\<And>a. a < length (draw_objs s) \<Longrightarrow> draw_objs t ! a = draw_objs s ! a"
    and e4: "\<And>b. b < length (world_objs s) \<Longrightarrow> world_objs t ! b = world_objs s ! b"
    by (auto simp: extends_def)
  show "extends s t'"
    unfolding extends_def
  proof (intro conjI allI impI)
    show "length (draw_objs s) \<le> length (draw_objs t')" using e1 l1 by simp
    show "length (world_objs s) \<le> length (world_objs t')" using e2 l2 by simp
  next
    fix a assume a: "a < length (draw_objs s)"
    with fresh have "a \<notin> snd ` set (world_objs t ! w)" by auto
    with a e1 have "draw_objs t' ! a = draw_objs t ! a" by (intro dr) simp_all
    with e3[OF a] show "draw_objs t' ! a = draw_objs s ! a" by simp
  next
    fix b assume b: "b < length (world_objs s)"
    with w e2 have "world_objs t' ! b = world_objs t ! b" by (intro wo) simp_all
    with e4[OF b] show "world_objs t' ! b = world_objs s ! b" by simp
  qed
  show "length (world_objs s) \<le> new_world" if "res = Inr (new_world, v)" for new_world v
    using ret that w e2 by auto
qed

lemma propose_st_extends:
  assumes frame: "model_frame model"
  shows "extends s (fst (snd (propose_st random model self tick (s, g))))"
proof -
  obtain proposal s1 where copy: "World_copy_st self s = (proposal, s1)"
    by (cases "World_copy_st self s")
  note c = World_copy_st_fresh[OF copy]
  obtain r1 g1 where pick: "random_choice random (proposable_st s1 proposal) g = (r1, g1)"
    by (cases "random_choice random (proposable_st s1 proposal) g")
  show ?thesis
  proof (cases r1)
    case (Inl e)
    with copy pick c(1) show ?thesis by (simp add: propose_st_def)
  next
    case (Inr a)
    with pick have "a \<in> set (proposable_st s1 proposal)" by (auto dest: random_choice_member)
    then have "a \<in> snd ` set (world_objs s1 ! proposal)" by (auto simp: proposable_st_def)
    with c(4) have a: "length (draw_objs s) \<le> a" by auto
    obtain s2 g2 where res: "resample_st a (s1, g1) = (s2, g2)"
      by (cases "resample_st a (s1, g1)")
    then have s2: "world_objs s2 = world_objs s1" and e2: "extends s s2"
      using extends_draw_update[OF c(1) a]
      by (auto simp: resample_st_def split: prod.splits)
    have fresh: "\<forall>a \<in> snd ` set (world_objs s2 ! proposal). length (draw_objs s) \<le> a"
      using c(4) unfolding s2 by auto
    obtain r3 s3 g3 where call: "model proposal tick (s2, g2) = (r3, s3, g3)"
      by (cases "model proposal tick (s2, g2)")
    have w: "length (world_objs s) \<le> proposal" using c(2) by simp
    note m = model_frame_extends[OF frame e2 w fresh call]
    show ?thesis
    proof (cases r3)
      case (Inl e)
      with copy pick Inr res call m(1) show ?thesis
        by (simp add: propose_st_def Let_def \<open>r1 = Inr a\<close>)
    next
      case r3: (Inr nv)
      obtain new_world v where nv: "nv = (new_world, v)" by (cases nv)
      from m(2)[of new_world v] r3 nv have "length (world_objs s) \<le> new_world" by simp
      from clean_st_extends[OF m(1) this, of tick]
      show ?thesis
        using copy pick \<open>r1 = Inr a\<close> res call r3 nv
        by (cases "clean_st new_world tick s3") (auto simp: propose_st_def Let_def)
    qed
  qed
qed

text \<open>The copy made on the store holds what the copy made on values holds.\<close>

lemma copy_loop_world_of:
  assumes "nw < length (world_objs t)"
    and "distinct (map fst items)"
    and "fst ` set items \<inter> fst ` set (world_objs t ! nw) = {}"
    and "\<forall>(n, a) \<in> set items. a < length (draw_objs t)"
    and "\<forall>(n, a) \<in> set (world_objs t ! nw). a < length (draw_objs t)"
  shows "world_of (copy_loop nw items t) nw
           = world_of t nw @ map (\<lambda>(n, a). (n, Draw_copy (draw_objs t ! a))) items"
  using assms
proof (induction items arbitrary: t)
  case Nil
  then show ?case by simp
next
  case (Cons x items)
  obtain i a where x: "x = (i, a)" by (cases x)
  let ?n = "length (draw_objs t)"
  let ?t' = "setitem nw i ?n (t\<lparr>draw_objs := draw_objs t @ [Draw_copy (draw_objs t ! a)]\<rparr>)"
  have step: "copy_loop nw ((i, a) # items) t = copy_loop nw items ?t'"
    by (simp add: Draw_copy_st_def new_Draw_def)
  from Cons.prems(3) x have absent: "map_of (world_objs t ! nw) i = None"
    by (auto simp: map_of_eq_None_iff)
  have dict': "world_objs ?t' ! nw = world_objs t ! nw @ [(i, ?n)]"
    using Cons.prems(1) by (simp add: setitem_def update_absent[OF absent])
  have draws': "draw_objs ?t' = draw_objs t @ [Draw_copy (draw_objs t ! a)]"
    by (simp add: setitem_def)
  have old: "draw_objs ?t' ! b = draw_objs t ! b" if "b < ?n" for b
    using that by (simp add: draws' nth_append)
  have wo': "world_of ?t' nw = world_of t nw @ [(i, Draw_copy (draw_objs t ! a))]"
    using Cons.prems(5) unfolding world_of_def dict'
    by (auto simp: draws' nth_append)
  have p1: "nw < length (world_objs ?t')" using Cons.prems(1) by (simp add: setitem_def)
  have p2: "distinct (map fst items)" using Cons.prems(2) by simp
  have p3: "fst ` set items \<inter> fst ` set (world_objs ?t' ! nw) = {}"
    using Cons.prems(2,3) unfolding dict' x by auto
  have p4: "\<forall>(n, a) \<in> set items. a < length (draw_objs ?t')"
    using Cons.prems(4) by (auto simp: draws')
  have p5: "\<forall>(n, a) \<in> set (world_objs ?t' ! nw). a < length (draw_objs ?t')"
    using Cons.prems(5) unfolding dict' by (auto simp: draws')
  have same: "map (\<lambda>(n, a). (n, Draw_copy (draw_objs ?t' ! a))) items
      = map (\<lambda>(n, a). (n, Draw_copy (draw_objs t ! a))) items"
    using Cons.prems(4) by (auto simp: old)
  show ?case
    unfolding x by (simp only: step Cons.IH[OF p1 p2 p3 p4 p5] wo' same) simp
qed

lemma World_copy_st_refines:
  assumes "world_at s self" and "distinct (map fst (world_objs s ! self))"
    and "World_copy_st self s = (new_world, s')"
  shows "world_of s' new_world = World_copy (world_of s self)"
proof -
  let ?s1 = "s\<lparr>world_objs := world_objs s @ [Nil]\<rparr>"
  from assms(1) have self: "self < length (world_objs s)"
    and addrs: "\<forall>(n, a) \<in> set (world_objs s ! self). a < length (draw_objs s)"
    by (auto simp: world_at_def list_all_iff)
  have items: "world_objs ?s1 ! self = world_objs s ! self"
    using self by (simp add: nth_append)
  from assms(3) have nw: "new_world = length (world_objs s)"
    and s': "s' = copy_loop (length (world_objs s)) (world_objs s ! self) ?s1"
    using self by (auto simp: World_copy_st_def new_World_def nth_append)
  have "world_of s' new_world
      = world_of ?s1 (length (world_objs s))
        @ map (\<lambda>(n, a). (n, Draw_copy (draw_objs ?s1 ! a))) (world_objs s ! self)"
    unfolding s' nw using assms(2) addrs
    by (intro copy_loop_world_of) auto
  also have "\<dots> = map (\<lambda>(i, d). (i, Draw_copy d)) (world_of s self)"
    by (simp add: world_of_def comp_def case_prod_unfold)
  also have "\<dots> = World_copy (world_of s self)"
    using assms(2) by (simp add: World_copy_map world_of_def comp_def case_prod_unfold)
  finally show ?thesis .
qed

lemma coin_model_st_frame: "model_frame coin_model_st"
  unfolding model_frame_def
proof (intro allI)
  fix w tick and s :: "(string, bool, nat) store" and g :: nat
  show "case coin_model_st w tick (s, g) of
          (res, s', g') \<Rightarrow>
            length (draw_objs s) \<le> length (draw_objs s')
          \<and> length (world_objs s) \<le> length (world_objs s')
          \<and> (\<forall>b < length (world_objs s). b \<noteq> w \<longrightarrow> world_objs s' ! b = world_objs s ! b)
          \<and> (\<forall>a < length (draw_objs s).
                 a \<notin> snd ` set (world_objs s ! w) \<longrightarrow> draw_objs s' ! a = draw_objs s ! a)
          \<and> (case res of
                Inl e \<Rightarrow> True
              | Inr (new_world, v) \<Rightarrow> new_world = w \<or> length (world_objs s) \<le> new_world)"
  proof (cases "map_of (world_objs s ! w) ''a''")
    case None
    then show ?thesis
      by (simp add: coin_model_st_def sample_st_def new_Draw_def setitem_def nth_append
            split: prod.splits)
  next
    case (Some a)
    then have "(''a'', a) \<in> set (world_objs s ! w)" by (rule map_of_SomeD)
    then have "a \<in> snd ` set (world_objs s ! w)" by force
    then have keep: "(draw_objs s)[a := d] ! a' = draw_objs s ! a'"
      if "a' \<notin> snd ` set (world_objs s ! w)" for a' d
      using that by (intro nth_list_update_neq) auto
    from Some show ?thesis
      by (simp add: coin_model_st_def sample_st_def Let_def keep)
  qed
qed

lemma store1_copy: "World_copy_st 0 store1 = (1, store1_copied)"
  by (simp add: World_copy_st_def new_World_def store1_def store1_copied_def Draw_copy_st_def
        new_Draw_def setitem_def Draw_copy_nonzero mk_draw_def)

lemma store1_propose:
  "propose_st rand0 coin_model_st 0 2 (store1, 0) = (Inr (1, True, 1 / 2, 1 / 2), store1_proposed, 2)"
proof -
  have pre: "proposable_st store1_copied 1 = [1]"
    by (simp add: proposable_st_def store1_copied_def mk_draw_def)
  have pick: "random_choice rand0 [1::nat] 0 = (Inr 1, 1)"
    by (simp add: random_choice_def rand0_def)
  have res: "resample_st 1 (store1_copied, 1) = (store1_copied, 2)"
    by (simp add: resample_st_def store1_copied_def mk_draw_def coin_sampler numeral_2_eq_2)
  have run: "coin_model_st 1 2 (store1_copied, 2) = (Inr (1, True), store1_proposed, 2)"
    by (simp add: coin_model_st_def sample_st_def store1_copied_def store1_proposed_def
          mk_draw_def score_def coin_scorer)
  have cl: "clean_st 1 2 store1_proposed = ((1, 1), store1_proposed)"
    by (simp add: clean_st_def store1_proposed_def mk_draw_def)
  have post: "proposable_st store1_proposed 1 = [1]"
    by (simp add: proposable_st_def store1_proposed_def mk_draw_def)
  have sc: "score (draw_objs store1_copied ! 1) = 1 / 2"
    by (simp add: store1_copied_def mk_draw_def score_def coin_scorer)
  show ?thesis
    by (simp only: propose_st_def prod.case sum.case store1_copy Let_def pre pick res run cl post sc)
       simp
qed

text \<open>
  C6. \<open>World.copy\<close> is reference-independent: the copy of the world at address \<open>self\<close> is
  another dict, the copying leaves the dict at \<open>self\<close> and its Draws as they were, and so
  does any write, of any value, to a Draw of the copy. Consequently, for a model callback
  that keeps to its frame, the store \<open>propose\<close> leaves behind, whether it returns a
  proposal or raises, holds the world at \<open>self\<close> with the Draws it had: the proposal can be
  discarded.
\<close>

theorem copy_is_reference_independent:
  assumes "world_at s self"
  shows "(case World_copy_st self s of
            (new_world, s') \<Rightarrow>
              new_world \<noteq> self \<and> untouched s s' self
            \<and> (\<forall>(n, b) \<in> set (world_objs s' ! new_world).
                   \<forall>d. untouched s (s'\<lparr>draw_objs := (draw_objs s')[b := d]\<rparr>) self))
       \<and> (model_frame model \<longrightarrow>
            (case propose_st random model self tick (s, g) of
               (res, s', g') \<Rightarrow> untouched s s' self \<and> world_of s' self = world_of s self))"
proof (intro conjI impI)
  obtain new_world s' where copy: "World_copy_st self s = (new_world, s')"
    by (cases "World_copy_st self s")
  note c = World_copy_st_fresh[OF copy]
  from assms c(2) have ne: "new_world \<noteq> self" by (simp add: world_at_def)
  have u: "untouched s s' self" by (rule extends_untouched[OF c(1) assms])
  have m: "untouched s (s'\<lparr>draw_objs := (draw_objs s')[b := d]\<rparr>) self"
    if "(n, b) \<in> set (world_objs s' ! new_world)" for n b d
  proof -
    from that have "b \<in> snd ` set (world_objs s' ! new_world)" by force
    with c(4) have "length (draw_objs s) \<le> b" by auto
    from extends_draw_update[OF c(1) this] show ?thesis
      by (rule extends_untouched[OF _ assms])
  qed
  from ne u m show "case World_copy_st self s of
            (new_world, s') \<Rightarrow>
              new_world \<noteq> self \<and> untouched s s' self
            \<and> (\<forall>(n, b) \<in> set (world_objs s' ! new_world).
                   \<forall>d. untouched s (s'\<lparr>draw_objs := (draw_objs s')[b := d]\<rparr>) self)"
    unfolding copy by auto
next
  assume frame: "model_frame model"
  obtain res s' g' where p: "propose_st random model self tick (s, g) = (res, s', g')"
    by (cases "propose_st random model self tick (s, g)")
  from propose_st_extends[OF frame, of s random self tick g] p have "extends s s'" by simp
  then have "untouched s s' self" by (rule extends_untouched[OF _ assms])
  then show "case propose_st random model self tick (s, g) of
               (res, s', g') \<Rightarrow> untouched s s' self \<and> world_of s' self = world_of s self"
    unfolding p by (simp add: untouched_world_of)
qed

theorem copy_is_reference_independent_witness:
  "world_at store1 0
   \<and> World_copy_st 0 store1 = (1, store1_copied)
   \<and> untouched store1 store1_copied 0
   \<and> world_of (store1_copied\<lparr>draw_objs := (draw_objs store1_copied)[1 := mk_draw False 9 9 True]\<rparr>) 0
       = world_of store1 0
   \<and> model_frame coin_model_st
   \<and> propose_st rand0 coin_model_st 0 2 (store1, 0)
       = (Inr (1, True, 1 / 2, 1 / 2), store1_proposed, 2)
   \<and> world_of store1_proposed 0 = world_of store1 0"
proof -
  have wf: "world_at store1 0" by (simp add: world_at_def store1_def)
  have mem: "(''a'', 1) \<in> set (world_objs store1_copied ! 1)"
    by (simp add: store1_copied_def)
  from copy_is_reference_independent[OF wf, of coin_model_st rand0 2 0]
  have 1: "untouched store1 store1_copied 0"
    and 2: "\<forall>(n, b) \<in> set (world_objs store1_copied ! 1).
               \<forall>d. untouched store1 (store1_copied\<lparr>draw_objs := (draw_objs store1_copied)[b := d]\<rparr>) 0"
    and 3: "world_of store1_proposed 0 = world_of store1 0"
    by (simp_all add: store1_copy store1_propose coin_model_st_frame)
  from 2 mem have "untouched store1
      (store1_copied\<lparr>draw_objs := (draw_objs store1_copied)[1 := mk_draw False 9 9 True]\<rparr>) 0"
    by blast
  then have 4: "world_of (store1_copied\<lparr>draw_objs := (draw_objs store1_copied)[1 := mk_draw False 9 9 True]\<rparr>) 0
       = world_of store1 0"
    by (rule untouched_world_of)
  from wf store1_copy 1 4 coin_model_st_frame store1_propose 3 show ?thesis by simp
qed

end
